theory Spec2Isabelle
  imports Complex_Main "HOL-Library.Word"
begin

unbundle bit_operations_syntax

section \<open>The HWP gripper acquisition bridge (agents/hwp_gripper/pru)\<close>

text \<open>
  Three C programs share one memory region: the host program
  \<^verbatim>\<open>BeagleboneGripper.c\<close> and the two PRU programs \<^verbatim>\<open>GripperEncoder.c\<close> and
  \<^verbatim>\<open>LimitSwitches.c\<close>. Each C statement becomes a state transformer and a function
  body is the composition of its statements in program order. One pass through a loop body
  is one step of the model; the other programs act on the shared region between steps.

  \<^verbatim>\<open>unsigned long int\<close> is 32 bits wide on the PRU and on the 32-bit ARM host (the two
  sides overlay the same structs on the region), hence \<open>32 word\<close>. \<^verbatim>\<open>clock_t\<close> is
  the host's \<^verbatim>\<open>long\<close>: a 32-bit word read as two's complement.
\<close>

type_synonym ulong = "32 word"
type_synonym clock_t = "32 word"

subsection \<open>Constants of the three programs\<close>

definition ENCODER_COUNTER_SIZE :: nat where
  "ENCODER_COUNTER_SIZE = 120"

definition ENCODER_PACKETS_TO_SEND :: ulong where
  "ENCODER_PACKETS_TO_SEND = 1"

definition LIMIT_PACKETS_TO_SEND :: ulong where
  "LIMIT_PACKETS_TO_SEND = 1"

definition ERROR_PACKETS_TO_SEND :: ulong where
  "ERROR_PACKETS_TO_SEND = 1"

definition ENCODER_TIMEOUT :: int where
  "ENCODER_TIMEOUT = 10"

definition ENCODER_TIMEOUT_FLAG :: ulong where
  "ENCODER_TIMEOUT_FLAG = 1"

definition ENCODER_HEADER :: ulong where
  "ENCODER_HEADER = 0xBAD0"

definition LIMIT_HEADER :: ulong where
  "LIMIT_HEADER = 0xF00D"

definition TIMEOUT_HEADER :: ulong where
  "TIMEOUT_HEADER = 0x1234"

text \<open>
  \<^verbatim>\<open>CLOCKS_PER_SEC\<close> comes from the C library's \<^verbatim>\<open>time.h\<close>, not from the
  repository; POSIX fixes it at one million.
\<close>

definition CLOCKS_PER_SEC :: int where
  "CLOCKS_PER_SEC = 1000000"

subsection \<open>Packet structs\<close>

record EncoderInfo =
  enc_header :: ulong
  enc_clock :: "ulong list"
  enc_clock_overflow :: "ulong list"
  enc_state :: "ulong list"

record LimitInfo =
  lim_header :: ulong
  lim_clock :: ulong
  lim_clock_overflow :: ulong
  lim_state :: ulong

record ErrorInfo =
  err_header :: ulong
  error_code :: ulong

record TimeoutInfo =
  tmo_header :: ulong
  tmo_type :: ulong

text \<open>What \<^verbatim>\<open>memset(p, 0, sizeof(*p))\<close> leaves in a struct of each kind.\<close>

definition zero_EncoderInfo :: EncoderInfo where
  "zero_EncoderInfo =
     \<lparr>enc_header = 0,
      enc_clock = replicate ENCODER_COUNTER_SIZE 0,
      enc_clock_overflow = replicate ENCODER_COUNTER_SIZE 0,
      enc_state = replicate ENCODER_COUNTER_SIZE 0\<rparr>"

definition zero_LimitInfo :: LimitInfo where
  "zero_LimitInfo = \<lparr>lim_header = 0, lim_clock = 0, lim_clock_overflow = 0, lim_state = 0\<rparr>"

definition zero_ErrorInfo :: ErrorInfo where
  "zero_ErrorInfo = \<lparr>err_header = 0, error_code = 0\<rparr>"

definition zero_TimeoutInfo :: TimeoutInfo where
  "zero_TimeoutInfo = \<lparr>tmo_header = 0, tmo_type = 0\<rparr>"

subsection \<open>The shared region\<close>

text \<open>
  Each channel has two packet slots behind its pointer. An index other than 0 or 1 leaves
  the two slots: the model reports it instead of reading or writing foreign memory.
\<close>

type_synonym 'a dbuf = "'a \<times> 'a"

definition slot_read :: "nat \<Rightarrow> 'a dbuf \<Rightarrow> 'a option" where
  "slot_read i b = (if i = 0 then Some (fst b) else if i = 1 then Some (snd b) else None)"

definition slot_write :: "nat \<Rightarrow> 'a \<Rightarrow> 'a dbuf \<Rightarrow> 'a dbuf option" where
  "slot_write i v b =
     (if i = 0 then Some (v, snd b) else if i = 1 then Some (fst b, v) else None)"

record shared =
  on :: ulong
  clock_overflow :: ulong
  encoder_ready :: ulong
  encoder_packets :: "EncoderInfo dbuf"
  limit_ready :: ulong
  limit_packets :: "LimitInfo dbuf"
  error_ready :: ulong
  error_packets :: "ErrorInfo dbuf"

datatype error = Shared_index_out_of_range | Batch_index_out_of_range | Sample_index_out_of_range

subsection \<open>The host program: globals and library calls\<close>

text \<open>The calls of the host that reach outside the process, in the order made.\<close>

datatype event =
    System_pinconfig
  | Printf_usage string
  | Sendto_encoder "EncoderInfo list"
  | Sendto_limit "LimitInfo list"
  | Sendto_error "ErrorInfo list"
  | Sendto_timeout TimeoutInfo
  | Printf_limit_state ulong
  | Printf_sending_limit clock_t
  | Printf_sending_error clock_t
  | Printf_sending_timeout clock_t
  | Pru_wait_event
  | Printf_all_done
  | Pru_disable nat
  | Prussdrv_exit

record host =
  encoder_to_send :: "EncoderInfo list"
  limit_to_send :: "LimitInfo list"
  error_to_send :: "ErrorInfo list"
  timeout_packet :: TimeoutInfo
  offset :: ulong
  encoder_index :: ulong
  limit_index :: ulong
  error_index :: ulong
  current_time :: clock_t
  encoder_time :: clock_t
  calls :: "event list"

text \<open>
  The send arrays have \<^verbatim>\<open>*_PACKETS_TO_SEND\<close> elements; a list's length is its
  array's size, so an index is in range when it is below the length.
\<close>

definition then_do :: "error + 'a \<Rightarrow> ('a \<Rightarrow> error + 'b) \<Rightarrow> error + 'b" where
  "then_do r f = (case r of Inl e \<Rightarrow> Inl e | Inr x \<Rightarrow> f x)"

definition emit :: "event \<Rightarrow> host \<Rightarrow> host" where
  "emit e h = h\<lparr>calls := calls h @ [e]\<rparr>"

subsection \<open>Draining a channel (lines 196 to 217)\<close>

text \<open>
  \<^verbatim>\<open>offset = *ready - 1; to_send[index] = packets[offset];\<close> for any channel: the slot
  read from the region and the send array with the copy stored.
\<close>

definition copy_slot :: "ulong \<Rightarrow> 'a dbuf \<Rightarrow> ulong \<Rightarrow> 'a list \<Rightarrow> error + (ulong \<times> 'a list)" where
  "copy_slot ready packets idx to_send =
     (let off = ready - 1 in
      case slot_read (unat off) packets of
        None \<Rightarrow> Inl Shared_index_out_of_range
      | Some pkt \<Rightarrow>
          if unat idx < length to_send then Inr (off, to_send[unat idx := pkt])
          else Inl Batch_index_out_of_range)"

definition copy_encoder :: "shared \<times> host \<Rightarrow> error + shared \<times> host" where
  "copy_encoder = (\<lambda>(sh, h).
     then_do (copy_slot (encoder_ready sh) (encoder_packets sh) (encoder_index h) (encoder_to_send h))
       (\<lambda>(off, ts). Inr (sh, h\<lparr>offset := off, encoder_to_send := ts\<rparr>)))"

definition bump_encoder :: "shared \<times> host \<Rightarrow> shared \<times> host" where
  "bump_encoder = (\<lambda>(sh, h). (sh, h\<lparr>encoder_index := encoder_index h + 1\<rparr>))"

definition ack_encoder :: "shared \<times> host \<Rightarrow> shared \<times> host" where
  "ack_encoder = (\<lambda>(sh, h). (sh\<lparr>encoder_ready := 0\<rparr>, h))"

definition stamp_encoder :: "shared \<times> host \<Rightarrow> shared \<times> host" where
  "stamp_encoder = (\<lambda>(sh, h). (sh, h\<lparr>encoder_time := current_time h\<rparr>))"

definition drain_encoder :: "shared \<times> host \<Rightarrow> error + shared \<times> host" where
  "drain_encoder s =
     (if encoder_ready (fst s) \<noteq> 0
      then then_do (copy_encoder s) (\<lambda>s1. Inr (stamp_encoder (ack_encoder (bump_encoder s1))))
      else Inr s)"

definition copy_limit :: "shared \<times> host \<Rightarrow> error + shared \<times> host" where
  "copy_limit = (\<lambda>(sh, h).
     then_do (copy_slot (limit_ready sh) (limit_packets sh) (limit_index h) (limit_to_send h))
       (\<lambda>(off, ts). Inr (sh, h\<lparr>offset := off, limit_to_send := ts\<rparr>)))"

definition print_limit :: "shared \<times> host \<Rightarrow> error + shared \<times> host" where
  "print_limit = (\<lambda>(sh, h).
     case slot_read (unat (offset h)) (limit_packets sh) of
       None \<Rightarrow> Inl Shared_index_out_of_range
     | Some pkt \<Rightarrow> Inr (sh, emit (Printf_limit_state (lim_state pkt)) h))"

definition bump_limit :: "shared \<times> host \<Rightarrow> shared \<times> host" where
  "bump_limit = (\<lambda>(sh, h). (sh, h\<lparr>limit_index := limit_index h + 1\<rparr>))"

definition ack_limit :: "shared \<times> host \<Rightarrow> shared \<times> host" where
  "ack_limit = (\<lambda>(sh, h). (sh\<lparr>limit_ready := 0\<rparr>, h))"

definition drain_limit :: "shared \<times> host \<Rightarrow> error + shared \<times> host" where
  "drain_limit s =
     (if limit_ready (fst s) \<noteq> 0
      then then_do (copy_limit s) (\<lambda>s1.
           then_do (print_limit s1) (\<lambda>s2. Inr (ack_limit (bump_limit s2))))
      else Inr s)"

definition copy_error :: "shared \<times> host \<Rightarrow> error + shared \<times> host" where
  "copy_error = (\<lambda>(sh, h).
     then_do (copy_slot (error_ready sh) (error_packets sh) (error_index h) (error_to_send h))
       (\<lambda>(off, ts). Inr (sh, h\<lparr>offset := off, error_to_send := ts\<rparr>)))"

definition bump_error :: "shared \<times> host \<Rightarrow> shared \<times> host" where
  "bump_error = (\<lambda>(sh, h). (sh, h\<lparr>error_index := error_index h + 1\<rparr>))"

definition ack_error :: "shared \<times> host \<Rightarrow> shared \<times> host" where
  "ack_error = (\<lambda>(sh, h). (sh\<lparr>error_ready := 0\<rparr>, h))"

definition drain_error :: "shared \<times> host \<Rightarrow> error + shared \<times> host" where
  "drain_error s =
     (if error_ready (fst s) \<noteq> 0
      then then_do (copy_error s) (\<lambda>s1. Inr (ack_error (bump_error s1)))
      else Inr s)"

subsection \<open>Dispatching the batches (lines 219 to 237)\<close>

definition send_encoder :: "shared \<times> host \<Rightarrow> shared \<times> host" where
  "send_encoder = (\<lambda>(sh, h).
     if encoder_index h = ENCODER_PACKETS_TO_SEND
     then (sh, (emit (Sendto_encoder (encoder_to_send h)) h)\<lparr>encoder_index := 0\<rparr>)
     else (sh, h))"

definition send_limit :: "shared \<times> host \<Rightarrow> shared \<times> host" where
  "send_limit = (\<lambda>(sh, h).
     if limit_index h = LIMIT_PACKETS_TO_SEND
     then (sh, (emit (Sendto_limit (limit_to_send h))
                 (emit (Printf_sending_limit (current_time h)) h))\<lparr>limit_index := 0\<rparr>)
     else (sh, h))"

definition send_error :: "shared \<times> host \<Rightarrow> shared \<times> host" where
  "send_error = (\<lambda>(sh, h).
     if error_index h = ERROR_PACKETS_TO_SEND
     then (sh, (emit (Sendto_error (error_to_send h))
                 (emit (Printf_sending_error (current_time h)) h))\<lparr>error_index := 0\<rparr>)
     else (sh, h))"

subsection \<open>The staleness check (lines 239 to 245)\<close>

text \<open>
  \<^verbatim>\<open>((double) (current_time - encoder_time))/CLOCKS_PER_SEC > ENCODER_TIMEOUT\<close>. The
  difference is taken on \<^verbatim>\<open>clock_t\<close> (it wraps) and read as signed. A double holds
  every 32-bit integer; the quotient is at least one millionth away from 10 whenever it
  differs from 10, far more than a double's rounding near 10, so the comparison of the
  rounded quotient is the comparison of the exact one.
\<close>

definition encoder_stale :: "host \<Rightarrow> bool" where
  "encoder_stale h \<longleftrightarrow>
     real_of_int (sint (current_time h - encoder_time h)) / real_of_int CLOCKS_PER_SEC
       > real_of_int ENCODER_TIMEOUT"

definition check_timeout :: "shared \<times> host \<Rightarrow> shared \<times> host" where
  "check_timeout = (\<lambda>(sh, h).
     if encoder_stale h
     then (let h1 = emit (Printf_sending_timeout (current_time h)) h;
               h2 = h1\<lparr>timeout_packet := (timeout_packet h1)\<lparr>tmo_type := ENCODER_TIMEOUT_FLAG\<rparr>\<rparr>;
               h3 = emit (Sendto_timeout (timeout_packet h2)) h2
           in (sh, h3\<lparr>encoder_time := current_time h3\<rparr>))
     else (sh, h))"

subsection \<open>One pass through the loop body (lines 194 to 245)\<close>

text \<open>The argument \<open>ct\<close> is what \<^verbatim>\<open>clock()\<close> returns in this pass.\<close>

definition drain_channels :: "shared \<times> host \<Rightarrow> error + shared \<times> host" where
  "drain_channels s =
     then_do (drain_encoder s) (\<lambda>s1.
     then_do (drain_limit s1) (\<lambda>s2.
     drain_error s2))"

definition dispatch :: "shared \<times> host \<Rightarrow> shared \<times> host" where
  "dispatch s = check_timeout (send_error (send_limit (send_encoder s)))"

definition loop_body :: "clock_t \<Rightarrow> shared \<times> host \<Rightarrow> error + shared \<times> host" where
  "loop_body ct = (\<lambda>(sh, h).
     then_do (drain_channels (sh, h\<lparr>current_time := ct\<rparr>)) (\<lambda>s. Inr (dispatch s)))"

subsection \<open>The host's state when it enters the loop\<close>

text \<open>
  The globals are zero-initialised by the C runtime; \<^verbatim>\<open>main\<close> then sets the timeout
  header, the three indices and \<^verbatim>\<open>current_time\<close> (lines 186 to 190).
\<close>

definition host_globals :: host where
  "host_globals =
     \<lparr>encoder_to_send = replicate (unat ENCODER_PACKETS_TO_SEND) zero_EncoderInfo,
      limit_to_send = replicate (unat LIMIT_PACKETS_TO_SEND) zero_LimitInfo,
      error_to_send = replicate (unat ERROR_PACKETS_TO_SEND) zero_ErrorInfo,
      timeout_packet = zero_TimeoutInfo,
      offset = 0, encoder_index = 0, limit_index = 0, error_index = 0,
      current_time = 0, encoder_time = 0, calls = []\<rparr>"

definition daq_init :: "clock_t \<Rightarrow> host \<Rightarrow> host" where
  "daq_init ct h =
     h\<lparr>timeout_packet := (timeout_packet h)\<lparr>tmo_header := TIMEOUT_HEADER\<rparr>,
       encoder_index := 0, limit_index := 0, error_index := 0, current_time := ct\<rparr>"

text \<open>
  What holds of the host's globals at the head of the loop: every send array has its
  declared size and every fill count is 0.
\<close>

definition batches_empty :: "host \<Rightarrow> bool" where
  "batches_empty h \<longleftrightarrow>
     length (encoder_to_send h) = unat ENCODER_PACKETS_TO_SEND \<and>
     length (limit_to_send h) = unat LIMIT_PACKETS_TO_SEND \<and>
     length (error_to_send h) = unat ERROR_PACKETS_TO_SEND \<and>
     encoder_index h = 0 \<and> limit_index h = 0 \<and> error_index h = 0"

text \<open>The producers' protocol for the ready indices: 0, 1 or 2.\<close>

definition ready_in_range :: "shared \<Rightarrow> bool" where
  "ready_in_range sh \<longleftrightarrow> encoder_ready sh \<le> 2 \<and> limit_ready sh \<le> 2 \<and> error_ready sh \<le> 2"

text \<open>The slot a ready index names.\<close>

definition ready_slot :: "ulong \<Rightarrow> 'a dbuf \<Rightarrow> 'a" where
  "ready_slot r b = (if r = 1 then fst b else snd b)"

text \<open>The datagrams among a list of calls, per channel, in the order sent.\<close>

fun encoder_datagrams :: "event list \<Rightarrow> EncoderInfo list list" where
  "encoder_datagrams [] = []"
| "encoder_datagrams (Sendto_encoder b # es) = b # encoder_datagrams es"
| "encoder_datagrams (_ # es) = encoder_datagrams es"

fun limit_datagrams :: "event list \<Rightarrow> LimitInfo list list" where
  "limit_datagrams [] = []"
| "limit_datagrams (Sendto_limit b # es) = b # limit_datagrams es"
| "limit_datagrams (_ # es) = limit_datagrams es"

fun error_datagrams :: "event list \<Rightarrow> ErrorInfo list list" where
  "error_datagrams [] = []"
| "error_datagrams (Sendto_error b # es) = b # error_datagrams es"
| "error_datagrams (_ # es) = error_datagrams es"

fun timeout_datagrams :: "event list \<Rightarrow> TimeoutInfo list" where
  "timeout_datagrams [] = []"
| "timeout_datagrams (Sendto_timeout p # es) = p # timeout_datagrams es"
| "timeout_datagrams (_ # es) = timeout_datagrams es"

text \<open>The calls a step added to the host's record of calls.\<close>

definition new_calls :: "host \<Rightarrow> host \<Rightarrow> event list" where
  "new_calls h h' = drop (length (calls h)) (calls h')"


subsection \<open>The start of \<^verbatim>\<open>main\<close> (lines 109 to 144)\<close>

text \<open>
  \<^verbatim>\<open>system("./pinconfig")\<close>, then the check of \<^verbatim>\<open>argc\<close>: the host after the calls
  made, and the status \<^verbatim>\<open>main\<close> returns, if it returns here.
\<close>

definition check_arguments :: "int \<Rightarrow> string \<Rightarrow> host \<Rightarrow> host \<times> int option" where
  "check_arguments argc argv0 h =
     (let h1 = emit System_pinconfig h in
      if argc \<noteq> 5 then (emit (Printf_usage argv0) h1, Some 1) else (h1, None))"

text \<open>
  The five \<^verbatim>\<open>memset\<close> calls of lines 135 to 139 and the four stores of lines 141 to
  144, in that order. The pointer \<^verbatim>\<open>clock_overflow\<close> is set up at line 127 and never
  used again.
\<close>

definition clear_region :: "shared \<Rightarrow> shared" where
  "clear_region sh =
     (let s1 = sh\<lparr>encoder_packets := (zero_EncoderInfo, snd (encoder_packets sh))\<rparr>;
          s2 = s1\<lparr>encoder_packets := (fst (encoder_packets s1), zero_EncoderInfo)\<rparr>;
          s3 = s2\<lparr>limit_packets := (zero_LimitInfo, snd (limit_packets s2))\<rparr>;
          s4 = s3\<lparr>limit_packets := (fst (limit_packets s3), zero_LimitInfo)\<rparr>;
          s5 = s4\<lparr>error_packets := (zero_ErrorInfo, snd (error_packets s4))\<rparr>;
          s6 = s5\<lparr>encoder_ready := 0\<rparr>;
          s7 = s6\<lparr>limit_ready := 0\<rparr>;
          s8 = s7\<lparr>error_ready := 0\<rparr>
      in s8\<lparr>on := 0\<rparr>)"

subsection \<open>The loop and what follows it (lines 193 to 256)\<close>

text \<open>
  \<^verbatim>\<open>while(*on != 1) { ... }\<close>. The loop has no bound of its own, so the model runs it
  against a schedule: one entry per pass, with the value \<^verbatim>\<open>clock()\<close> returns in that
  pass and what the other programs do to the region before the host reads the run flag
  again. A schedule that ends with the flag still not 1 leaves the host polling.
\<close>

datatype outcome =
    Loop_exit "shared \<times> host"
  | Still_polling "shared \<times> host"
  | Fault error

fun acquisition_loop :: "(clock_t \<times> (shared \<Rightarrow> shared)) list \<Rightarrow> shared \<times> host \<Rightarrow> outcome" where
  "acquisition_loop [] (sh, h) = (if on sh \<noteq> 1 then Still_polling (sh, h) else Loop_exit (sh, h))"
| "acquisition_loop ((ct, env) # rest) (sh, h) =
     (if on sh \<noteq> 1
      then (case loop_body ct (sh, h) of
              Inl e \<Rightarrow> Fault e
            | Inr (sh', h') \<Rightarrow> acquisition_loop rest (env sh', h'))
      else Loop_exit (sh, h))"

text \<open>
  Lines 248 to 256. \<^verbatim>\<open>prussdrv_pru_wait_event\<close> returns only when the PRU's interrupt
  arrives (\<open>irq\<close>); otherwise the host stays blocked in it.
\<close>

datatype finish = Blocked host | Returned host int

definition after_loop :: "bool \<Rightarrow> shared \<times> host \<Rightarrow> finish" where
  "after_loop irq = (\<lambda>(sh, h).
     if on sh = 1
     then (let h1 = emit Pru_wait_event h in
           if irq
           then Returned (emit Prussdrv_exit (emit (Pru_disable 0) (emit (Pru_disable 1)
                  (emit Printf_all_done h1)))) 0
           else Blocked h1)
     else Returned h 0)"

subsection \<open>The encoder producer (\<^verbatim>\<open>GripperEncoder.c\<close>)\<close>

text \<open>
  The program's two variables \<^verbatim>\<open>packet\<close> and \<^verbatim>\<open>index\<close> (both programs of the PRU
  call their slot variable \<^verbatim>\<open>packet\<close>), and a record of the values the loop has
  stored to \<^verbatim>\<open>*encoder_ready\<close>, in order.
\<close>

record enc_local =
  enc_packet :: ulong
  enc_index :: ulong
  enc_published :: "ulong list"

text \<open>
  What the hardware returns in one pass of the loop: the status register at line 82, the
  counter at line 87, the status register again at line 88 and the input register at
  line 89.
\<close>

record enc_hw =
  sts_check :: ulong
  tmr_cnt :: ulong
  sts_fold :: ulong
  r31 :: ulong

definition encoder_pru_mask :: ulong where
  "encoder_pru_mask =
     push_bit 0 1 OR push_bit 1 1 OR push_bit 2 1 OR push_bit 3 1 OR push_bit 4 1 OR push_bit 5 1"

definition enc_local_init :: enc_local where
  "enc_local_init = \<lparr>enc_packet = 0, enc_index = 0, enc_published = []\<rparr>"

text \<open>Lines 66 to 70.\<close>

definition encoder_startup :: "shared \<Rightarrow> shared" where
  "encoder_startup sh =
     (let s1 = sh\<lparr>encoder_ready := 0\<rparr>;
          s2 = s1\<lparr>clock_overflow := 0\<rparr>;
          s3 = s2\<lparr>encoder_packets :=
                  ((fst (encoder_packets s2))\<lparr>enc_header := ENCODER_HEADER\<rparr>, snd (encoder_packets s2))\<rparr>
      in s3\<lparr>encoder_packets :=
              (fst (encoder_packets s3), (snd (encoder_packets s3))\<lparr>enc_header := ENCODER_HEADER\<rparr>)\<rparr>)"

text \<open>Lines 82 to 85: the producer counts a wrap of the counter it finds flagged.\<close>

definition count_overflow :: "enc_hw \<Rightarrow> shared \<times> enc_local \<Rightarrow> shared \<times> enc_local" where
  "count_overflow x = (\<lambda>(sh, l).
     if sts_check x AND 1 \<noteq> 0 then (sh\<lparr>clock_overflow := clock_overflow sh + 1\<rparr>, l)
     else (sh, l))"

text \<open>
  Lines 87 to 89: the three stores into \<^verbatim>\<open>encoder_packets[packet]\<close> at \<^verbatim>\<open>index\<close>.
  Each of the three arrays has as many elements as its list.
\<close>

definition store_sample :: "enc_hw \<Rightarrow> shared \<times> enc_local \<Rightarrow> error + shared \<times> enc_local" where
  "store_sample x = (\<lambda>(sh, l).
     case slot_read (unat (enc_packet l)) (encoder_packets sh) of
       None \<Rightarrow> Inl Shared_index_out_of_range
     | Some p \<Rightarrow>
         (let i = unat (enc_index l) in
          if i < length (enc_clock p) \<and> i < length (enc_clock_overflow p) \<and> i < length (enc_state p)
          then
            (let p1 = p\<lparr>enc_clock := (enc_clock p)[i := tmr_cnt x]\<rparr>;
                 p2 = p1\<lparr>enc_clock_overflow :=
                          (enc_clock_overflow p1)[i := clock_overflow sh + (sts_fold x AND 1)]\<rparr>;
                 p3 = p2\<lparr>enc_state := (enc_state p2)[i := r31 x AND encoder_pru_mask]\<rparr>
             in case slot_write (unat (enc_packet l)) p3 (encoder_packets sh) of
                  None \<Rightarrow> Inl Shared_index_out_of_range
                | Some b \<Rightarrow> Inr (sh\<lparr>encoder_packets := b\<rparr>, l))
          else Inl Sample_index_out_of_range))"

text \<open>Lines 91 to 96.\<close>

definition advance :: "shared \<times> enc_local \<Rightarrow> shared \<times> enc_local" where
  "advance = (\<lambda>(sh, l).
     let l1 = l\<lparr>enc_index := enc_index l + 1\<rparr> in
     if enc_index l1 = of_nat ENCODER_COUNTER_SIZE
     then (let l2 = l1\<lparr>enc_index := 0\<rparr>;
               sh1 = sh\<lparr>encoder_ready := enc_packet l2 + 1\<rparr>;
               l3 = l2\<lparr>enc_published := enc_published l2 @ [enc_packet l2 + 1]\<rparr>
           in (sh1, l3\<lparr>enc_packet := (enc_packet l3 XOR 1) AND 1\<rparr>))
     else (sh, l1))"

definition encoder_pass :: "enc_hw \<Rightarrow> shared \<times> enc_local \<Rightarrow> error + shared \<times> enc_local" where
  "encoder_pass x s = then_do (store_sample x (count_overflow x s)) (\<lambda>s1. Inr (advance s1))"

text \<open>\<^verbatim>\<open>while(*on == 0) { ... }\<close> against the hardware's answers, one entry per pass.\<close>

fun encoder_loop :: "enc_hw list \<Rightarrow> shared \<times> enc_local \<Rightarrow> error + shared \<times> enc_local" where
  "encoder_loop [] s = Inr s"
| "encoder_loop (x # xs) s =
     (if on (fst s) = 0 then then_do (encoder_pass x s) (encoder_loop xs) else Inr s)"

subsection \<open>The limit-switch producer (\<^verbatim>\<open>LimitSwitches.c\<close>)\<close>

record lim_local =
  lim_packet :: ulong
  lim_published :: "ulong list"

text \<open>
  The hardware's answers in one pass: the input register at line 70, the counter at line
  71, the status register at line 72 and the input register again at line 73.
\<close>

record lim_hw =
  r31_check :: ulong
  lim_tmr_cnt :: ulong
  lim_sts :: ulong
  r31_state :: ulong

definition limit_pru_mask :: ulong where
  "limit_pru_mask =
     push_bit 8 1 OR push_bit 9 1 OR push_bit 10 1 OR push_bit 11 1 OR push_bit 12 1 OR push_bit 13 1"

definition lim_local_init :: lim_local where
  "lim_local_init = \<lparr>lim_packet = 0, lim_published = []\<rparr>"

text \<open>Lines 57 to 60.\<close>

definition limit_startup :: "shared \<Rightarrow> shared" where
  "limit_startup sh =
     (let s1 = sh\<lparr>limit_ready := 0\<rparr>;
          s2 = s1\<lparr>limit_packets :=
                  ((fst (limit_packets s1))\<lparr>lim_header := LIMIT_HEADER\<rparr>, snd (limit_packets s1))\<rparr>
      in s2\<lparr>limit_packets :=
              (fst (limit_packets s2), (snd (limit_packets s2))\<lparr>lim_header := LIMIT_HEADER\<rparr>)\<rparr>)"

text \<open>Lines 71 to 73: the three stores into \<^verbatim>\<open>limit_packets[packet]\<close>.\<close>

definition store_event :: "lim_hw \<Rightarrow> shared \<times> lim_local \<Rightarrow> error + shared \<times> lim_local" where
  "store_event x = (\<lambda>(sh, l).
     case slot_read (unat (lim_packet l)) (limit_packets sh) of
       None \<Rightarrow> Inl Shared_index_out_of_range
     | Some p \<Rightarrow>
         (let p1 = p\<lparr>lim_clock := lim_tmr_cnt x\<rparr>;
              p2 = p1\<lparr>lim_clock_overflow := clock_overflow sh + (lim_sts x AND 1)\<rparr>;
              p3 = p2\<lparr>lim_state := NOT (r31_state x) AND limit_pru_mask\<rparr>
          in case slot_write (unat (lim_packet l)) p3 (limit_packets sh) of
               None \<Rightarrow> Inl Shared_index_out_of_range
             | Some b \<Rightarrow> Inr (sh\<lparr>limit_packets := b\<rparr>, l)))"

text \<open>Lines 75 and 76.\<close>

definition publish_event :: "shared \<times> lim_local \<Rightarrow> shared \<times> lim_local" where
  "publish_event = (\<lambda>(sh, l).
     let sh1 = sh\<lparr>limit_ready := lim_packet l + 1\<rparr>;
         l1 = l\<lparr>lim_published := lim_published l @ [lim_packet l + 1]\<rparr>
     in (sh1, l1\<lparr>lim_packet := (lim_packet l1 XOR 1) AND 1\<rparr>))"

definition limit_pass :: "lim_hw \<Rightarrow> shared \<times> lim_local \<Rightarrow> error + shared \<times> lim_local" where
  "limit_pass x s =
     (if NOT (r31_check x) AND limit_pru_mask \<noteq> 0
      then then_do (store_event x s) (\<lambda>s1. Inr (publish_event s1))
      else Inr s)"


subsection \<open>Well-formed producer states and the expected contents of a buffer\<close>

text \<open>Every array of an encoder packet has \<^verbatim>\<open>ENCODER_COUNTER_SIZE\<close> elements.\<close>

definition encoder_slot_sized :: "EncoderInfo \<Rightarrow> bool" where
  "encoder_slot_sized p \<longleftrightarrow>
     length (enc_clock p) = ENCODER_COUNTER_SIZE \<and>
     length (enc_clock_overflow p) = ENCODER_COUNTER_SIZE \<and>
     length (enc_state p) = ENCODER_COUNTER_SIZE"

definition enc_ok :: "shared \<times> enc_local \<Rightarrow> bool" where
  "enc_ok = (\<lambda>(sh, l).
     enc_packet l \<le> 1 \<and> unat (enc_index l) < ENCODER_COUNTER_SIZE \<and>
     encoder_slot_sized (fst (encoder_packets sh)) \<and>
     encoder_slot_sized (snd (encoder_packets sh)))"

text \<open>
  The overflow counter after the passes that read \<open>xs\<close> from the hardware, and the
  overflow fields those passes record: each pass first counts a flagged wrap, then
  records the counter plus the flag bit it reads with the sample.
\<close>

fun counted_overflow :: "ulong \<Rightarrow> enc_hw list \<Rightarrow> ulong" where
  "counted_overflow c [] = c"
| "counted_overflow c (x # xs) =
     counted_overflow (if sts_check x AND 1 \<noteq> 0 then c + 1 else c) xs"

fun folded_overflow :: "ulong \<Rightarrow> enc_hw list \<Rightarrow> ulong list" where
  "folded_overflow c [] = []"
| "folded_overflow c (x # xs) =
     (let c' = (if sts_check x AND 1 \<noteq> 0 then c + 1 else c)
      in (c' + (sts_fold x AND 1)) # folded_overflow c' xs)"


text \<open>The slot the encoder producer is writing: the one its next ready value will name.\<close>

definition filling :: "shared \<times> enc_local \<Rightarrow> EncoderInfo" where
  "filling = (\<lambda>(sh, l). ready_slot (enc_packet l + 1) (encoder_packets sh))"

text \<open>The number of passes of the limit producer that see a pressed switch.\<close>

definition pressed :: "lim_hw \<Rightarrow> bool" where
  "pressed x \<longleftrightarrow> NOT (r31_check x) AND limit_pru_mask \<noteq> 0"

text \<open>
  The region when the producers enter their loops: cleared by the host, then set up by
  each producer's first statements.
\<close>

definition booted_region :: "shared \<Rightarrow> shared" where
  "booted_region sh = limit_startup (encoder_startup (clear_region sh))"

subsection \<open>The three programs side by side\<close>

text \<open>
  The host and the two producers run at the same time on one region. The model interleaves
  them pass by pass: a pass of the host's loop, a pass of either producer's loop, or the
  store of 1 to the run flag, which none of the three programs makes (the encoder program
  says the IRIG code does). A program whose loop condition fails makes no further pass.
\<close>

record system =
  region :: shared
  arm :: host
  pru_encoder :: enc_local
  pru_limit :: lim_local

datatype action = Host_pass clock_t | Encoder_pass enc_hw | Limit_pass lim_hw | Stop


fun step :: "action \<Rightarrow> system \<Rightarrow> error + system" where
  "step (Host_pass ct) s =
     (if on (region s) \<noteq> 1
      then then_do (loop_body ct (region s, arm s)) (\<lambda>(sh, h). Inr (s\<lparr>region := sh, arm := h\<rparr>))
      else Inr s)"
| "step (Encoder_pass x) s =
     (if on (region s) = 0
      then then_do (encoder_pass x (region s, pru_encoder s))
             (\<lambda>(sh, l). Inr (s\<lparr>region := sh, pru_encoder := l\<rparr>))
      else Inr s)"
| "step (Limit_pass x) s =
     (if on (region s) = 0
      then then_do (limit_pass x (region s, pru_limit s))
             (\<lambda>(sh, l). Inr (s\<lparr>region := sh, pru_limit := l\<rparr>))
      else Inr s)"
| "step Stop s = Inr (s\<lparr>region := (region s)\<lparr>on := 1\<rparr>\<rparr>)"

fun run :: "action list \<Rightarrow> system \<Rightarrow> error + system" where
  "run [] s = Inr s"
| "run (a # as) s = then_do (step a s) (run as)"


subsection \<open>Concrete states used in the examples\<close>

text \<open>
  A region in which the encoder producer has published slot 1 and the limit producer
  slot 0, and a host that has just entered the loop.
\<close>

definition example_region :: shared where
  "example_region =
     \<lparr>on = 0, clock_overflow = 3, encoder_ready = 2,
      encoder_packets = (zero_EncoderInfo, zero_EncoderInfo\<lparr>enc_header := ENCODER_HEADER\<rparr>),
      limit_ready = 1,
      limit_packets =
        (\<lparr>lim_header = LIMIT_HEADER, lim_clock = 7, lim_clock_overflow = 3, lim_state = 0x100\<rparr>,
         zero_LimitInfo),
      error_ready = 0,
      error_packets = (zero_ErrorInfo, zero_ErrorInfo)\<rparr>"

definition example_host :: host where
  "example_host = daq_init 5 host_globals"

definition idle_region :: shared where
  "idle_region = example_region\<lparr>encoder_ready := 0, limit_ready := 0\<rparr>"

text \<open>A pass of the limit producer that finds a switch pressed while the wrap flag is set.\<close>

definition example_press :: lim_hw where
  "example_press = \<lparr>r31_check = 0, lim_tmr_cnt = 5, lim_sts = 1, r31_state = 0\<rparr>"

text \<open>A pass of the encoder producer that finds the wrap flag set, and one that does not.\<close>

definition example_wrap :: enc_hw where
  "example_wrap = \<lparr>sts_check = 1, tmr_cnt = 2, sts_fold = 0, r31 = 0x21\<rparr>"

definition example_tick :: enc_hw where
  "example_tick = \<lparr>sts_check = 0, tmr_cnt = 4294967290, sts_fold = 0, r31 = 0x20\<rparr>"

section \<open>Properties of the host's loop body\<close>

lemma then_do_Inr [simp]: "then_do (Inr x) f = f x"
  by (simp add: then_do_def)

lemma then_do_Inl [simp]: "then_do (Inl e) f = Inl e"
  by (simp add: then_do_def)

lemma ulong_le_2: "(r::ulong) \<le> 2 \<Longrightarrow> r = 0 \<or> r = 1 \<or> r = 2"
  by unat_arith

lemma slot_read_ready:
  "(r::ulong) \<le> 2 \<Longrightarrow> r \<noteq> 0 \<Longrightarrow> slot_read (unat (r - 1)) b = Some (ready_slot r b)"
  using ulong_le_2 [of r] by (auto simp: slot_read_def ready_slot_def)

lemma update_singleton: "length ts = Suc 0 \<Longrightarrow> ts[0 := v] = [v]"
  by (cases ts) auto

lemma copy_slot_ok:
  "r \<le> 2 \<Longrightarrow> r \<noteq> 0 \<Longrightarrow> length ts = Suc 0 \<Longrightarrow>
   copy_slot r b 0 ts = Inr (r - 1, [ready_slot r b])"
  by (simp add: copy_slot_def slot_read_ready update_singleton)

lemma drain_encoder_idle: "encoder_ready sh = 0 \<Longrightarrow> drain_encoder (sh, h) = Inr (sh, h)"
  by (simp add: drain_encoder_def)

lemma drain_encoder_ready:
  assumes "encoder_ready sh \<noteq> 0" "encoder_ready sh \<le> 2"
    and "encoder_index h = 0" "length (encoder_to_send h) = Suc 0"
  shows "drain_encoder (sh, h) =
     Inr (sh\<lparr>encoder_ready := 0\<rparr>,
          h\<lparr>offset := encoder_ready sh - 1,
            encoder_to_send := [ready_slot (encoder_ready sh) (encoder_packets sh)],
            encoder_index := 1, encoder_time := current_time h\<rparr>)"
  using assms
  by (simp add: drain_encoder_def copy_encoder_def copy_slot_ok bump_encoder_def
      ack_encoder_def stamp_encoder_def)

lemma drain_limit_idle: "limit_ready sh = 0 \<Longrightarrow> drain_limit (sh, h) = Inr (sh, h)"
  by (simp add: drain_limit_def)

lemma drain_limit_ready:
  assumes "limit_ready sh \<noteq> 0" "limit_ready sh \<le> 2"
    and "limit_index h = 0" "length (limit_to_send h) = Suc 0"
  shows "drain_limit (sh, h) =
     Inr (sh\<lparr>limit_ready := 0\<rparr>,
          h\<lparr>offset := limit_ready sh - 1,
            limit_to_send := [ready_slot (limit_ready sh) (limit_packets sh)],
            limit_index := 1,
            calls := calls h @ [Printf_limit_state (lim_state (ready_slot (limit_ready sh) (limit_packets sh)))]\<rparr>)"
  using assms
  by (simp add: drain_limit_def copy_limit_def copy_slot_ok print_limit_def slot_read_ready
      emit_def bump_limit_def ack_limit_def)

lemma drain_error_idle: "error_ready sh = 0 \<Longrightarrow> drain_error (sh, h) = Inr (sh, h)"
  by (simp add: drain_error_def)

lemma drain_error_ready:
  assumes "error_ready sh \<noteq> 0" "error_ready sh \<le> 2"
    and "error_index h = 0" "length (error_to_send h) = Suc 0"
  shows "drain_error (sh, h) =
     Inr (sh\<lparr>error_ready := 0\<rparr>,
          h\<lparr>offset := error_ready sh - 1,
            error_to_send := [ready_slot (error_ready sh) (error_packets sh)],
            error_index := 1\<rparr>)"
  using assms
  by (simp add: drain_error_def copy_error_def copy_slot_ok bump_error_def ack_error_def)


lemma copy_slot_in_range:
  "r \<le> 2 \<Longrightarrow> r \<noteq> 0 \<Longrightarrow> copy_slot r b i ts \<noteq> Inl Shared_index_out_of_range"
  by (simp add: copy_slot_def slot_read_ready)

lemma copy_slot_no_check: "2 < r \<Longrightarrow> copy_slot r b i ts = Inl Shared_index_out_of_range"
proof -
  assume "2 < r"
  then have "unat (r - 1) \<noteq> 0 \<and> unat (r - 1) \<noteq> 1" by unat_arith
  then show ?thesis by (simp add: copy_slot_def slot_read_def)
qed

lemma copy_slot_offset: "copy_slot r b i ts = Inr (off, ts') \<Longrightarrow> off = r - 1 \<and> slot_read (unat off) b \<noteq> None"
  by (auto simp: copy_slot_def Let_def split: option.splits if_splits)

lemma drain_encoder_region:
  "drain_encoder (sh, h) = Inr (sh', h') \<Longrightarrow> sh' = sh\<lparr>encoder_ready := 0\<rparr>"
  by (auto simp: drain_encoder_def copy_encoder_def then_do_def bump_encoder_def ack_encoder_def
      stamp_encoder_def split: if_splits sum.splits prod.splits)

lemma drain_limit_region:
  "drain_limit (sh, h) = Inr (sh', h') \<Longrightarrow> sh' = sh\<lparr>limit_ready := 0\<rparr>"
  by (auto simp: drain_limit_def copy_limit_def print_limit_def then_do_def bump_limit_def ack_limit_def
      split: if_splits sum.splits prod.splits option.splits)

lemma drain_error_region:
  "drain_error (sh, h) = Inr (sh', h') \<Longrightarrow> sh' = sh\<lparr>error_ready := 0\<rparr>"
  by (auto simp: drain_error_def copy_error_def then_do_def bump_error_def ack_error_def
      split: if_splits sum.splits prod.splits)

lemma drain_channels_region:
  assumes "drain_channels (sh, h) = Inr (sh', h')"
  shows "sh' = sh\<lparr>encoder_ready := 0, limit_ready := 0, error_ready := 0\<rparr>"
proof -
  from assms obtain sh1 h1 sh2 h2 where
    e: "drain_encoder (sh, h) = Inr (sh1, h1)" and
    l: "drain_limit (sh1, h1) = Inr (sh2, h2)" and
    r: "drain_error (sh2, h2) = Inr (sh', h')"
    by (auto simp: drain_channels_def then_do_def split: sum.splits)
  show ?thesis
    using drain_encoder_region [OF e] drain_limit_region [OF l] drain_error_region [OF r]
    by simp
qed

lemma dispatch_region: "fst (dispatch (sh, h)) = sh"
  by (simp add: dispatch_def send_encoder_def send_limit_def send_error_def check_timeout_def Let_def)

lemma loop_body_region:
  assumes "loop_body ct (sh, h) = Inr (sh', h')"
  shows "sh' = sh\<lparr>encoder_ready := 0, limit_ready := 0, error_ready := 0\<rparr>"
proof -
  from assms obtain sh1 h1 where
    d: "drain_channels (sh, h\<lparr>current_time := ct\<rparr>) = Inr (sh1, h1)" and
    p: "dispatch (sh1, h1) = (sh', h')"
    by (auto simp: loop_body_def then_do_def split: sum.splits)
  from p have "sh' = sh1" using dispatch_region [of sh1 h1] by simp
  with drain_channels_region [OF d] show ?thesis by simp
qed







lemma encoder_datagrams_append:
  "encoder_datagrams (xs @ ys) = encoder_datagrams xs @ encoder_datagrams ys"
  by (induction xs rule: encoder_datagrams.induct) simp_all

lemma limit_datagrams_append:
  "limit_datagrams (xs @ ys) = limit_datagrams xs @ limit_datagrams ys"
  by (induction xs rule: limit_datagrams.induct) simp_all

lemma error_datagrams_append:
  "error_datagrams (xs @ ys) = error_datagrams xs @ error_datagrams ys"
  by (induction xs rule: error_datagrams.induct) simp_all

lemma timeout_datagrams_append:
  "timeout_datagrams (xs @ ys) = timeout_datagrams xs @ timeout_datagrams ys"
  by (induction xs rule: timeout_datagrams.induct) simp_all

lemma encoder_stale_iff:
  "encoder_stale h \<longleftrightarrow> ENCODER_TIMEOUT * CLOCKS_PER_SEC < sint (current_time h - encoder_time h)"
proof -
  have "real_of_int ENCODER_TIMEOUT < real_of_int (sint (current_time h - encoder_time h)) / real_of_int CLOCKS_PER_SEC
    \<longleftrightarrow> real_of_int ENCODER_TIMEOUT * real_of_int CLOCKS_PER_SEC < real_of_int (sint (current_time h - encoder_time h))"
    by (rule pos_less_divide_eq) (simp add: CLOCKS_PER_SEC_def)
  also have "\<dots> \<longleftrightarrow> ENCODER_TIMEOUT * CLOCKS_PER_SEC < sint (current_time h - encoder_time h)"
    by (simp only: of_int_mult [symmetric] of_int_less_iff)
  finally show ?thesis by (simp add: encoder_stale_def)
qed

lemma new_calls_append: "calls h' = calls h @ es \<Longrightarrow> new_calls h h' = es"
  by (simp add: new_calls_def)

text \<open>The dispatch stage, call by call.\<close>

lemma dispatch_result:
  "\<exists>h'. dispatch (sh, h) = (sh, h') \<and>
     calls h' = calls h @
       (if encoder_index h = ENCODER_PACKETS_TO_SEND then [Sendto_encoder (encoder_to_send h)] else []) @
       (if limit_index h = LIMIT_PACKETS_TO_SEND
        then [Printf_sending_limit (current_time h), Sendto_limit (limit_to_send h)] else []) @
       (if error_index h = ERROR_PACKETS_TO_SEND
        then [Printf_sending_error (current_time h), Sendto_error (error_to_send h)] else []) @
       (if encoder_stale h
        then [Printf_sending_timeout (current_time h),
              Sendto_timeout ((timeout_packet h)\<lparr>tmo_type := ENCODER_TIMEOUT_FLAG\<rparr>)] else []) \<and>
     encoder_index h' = (if encoder_index h = ENCODER_PACKETS_TO_SEND then 0 else encoder_index h) \<and>
     limit_index h' = (if limit_index h = LIMIT_PACKETS_TO_SEND then 0 else limit_index h) \<and>
     error_index h' = (if error_index h = ERROR_PACKETS_TO_SEND then 0 else error_index h) \<and>
     encoder_time h' = (if encoder_stale h then current_time h else encoder_time h) \<and>
     current_time h' = current_time h \<and>
     encoder_to_send h' = encoder_to_send h \<and> limit_to_send h' = limit_to_send h \<and>
     error_to_send h' = error_to_send h \<and>
     tmo_header (timeout_packet h') = tmo_header (timeout_packet h)"
  by (simp add: dispatch_def send_encoder_def send_limit_def send_error_def check_timeout_def
      emit_def Let_def encoder_stale_def)


lemma drain_channels_host:
  assumes "ready_in_range sh" and "batches_empty h"
  shows "\<exists>h1. drain_channels (sh, h) =
            Inr (sh\<lparr>encoder_ready := 0, limit_ready := 0, error_ready := 0\<rparr>, h1) \<and>
     (encoder_to_send h1, encoder_index h1) =
       (if encoder_ready sh = 0 then (encoder_to_send h, 0)
        else ([ready_slot (encoder_ready sh) (encoder_packets sh)], 1)) \<and>
     (limit_to_send h1, limit_index h1) =
       (if limit_ready sh = 0 then (limit_to_send h, 0)
        else ([ready_slot (limit_ready sh) (limit_packets sh)], 1)) \<and>
     (error_to_send h1, error_index h1) =
       (if error_ready sh = 0 then (error_to_send h, 0)
        else ([ready_slot (error_ready sh) (error_packets sh)], 1)) \<and>
     current_time h1 = current_time h \<and>
     encoder_time h1 = (if encoder_ready sh = 0 then encoder_time h else current_time h) \<and>
     timeout_packet h1 = timeout_packet h \<and>
     calls h1 = calls h @
       (if limit_ready sh = 0 then []
        else [Printf_limit_state (lim_state (ready_slot (limit_ready sh) (limit_packets sh)))])"
  using assms
  unfolding ready_in_range_def batches_empty_def ENCODER_PACKETS_TO_SEND_def
    LIMIT_PACKETS_TO_SEND_def ERROR_PACKETS_TO_SEND_def
  by (cases "encoder_ready sh = 0"; cases "limit_ready sh = 0"; cases "error_ready sh = 0")
     (simp_all add: drain_channels_def drain_encoder_idle drain_encoder_ready drain_limit_idle
       drain_limit_ready drain_error_idle drain_error_ready)

lemma not_stale_same_time: "current_time h = encoder_time h \<Longrightarrow> \<not> encoder_stale h"
  by (simp add: encoder_stale_iff ENCODER_TIMEOUT_def CLOCKS_PER_SEC_def)

lemma loop_body_pass:
  assumes "ready_in_range sh" and "batches_empty h"
  shows "\<exists>h'. loop_body ct (sh, h) =
            Inr (sh\<lparr>encoder_ready := 0, limit_ready := 0, error_ready := 0\<rparr>, h') \<and>
     batches_empty h' \<and>
     calls h' = calls h @
       (if limit_ready sh = 0 then []
        else [Printf_limit_state (lim_state (ready_slot (limit_ready sh) (limit_packets sh)))]) @
       (if encoder_ready sh = 0 then []
        else [Sendto_encoder [ready_slot (encoder_ready sh) (encoder_packets sh)]]) @
       (if limit_ready sh = 0 then []
        else [Printf_sending_limit ct, Sendto_limit [ready_slot (limit_ready sh) (limit_packets sh)]]) @
       (if error_ready sh = 0 then []
        else [Printf_sending_error ct, Sendto_error [ready_slot (error_ready sh) (error_packets sh)]]) @
       (if encoder_ready sh = 0 \<and> ENCODER_TIMEOUT * CLOCKS_PER_SEC < sint (ct - encoder_time h)
        then [Printf_sending_timeout ct,
              Sendto_timeout \<lparr>tmo_header = tmo_header (timeout_packet h), tmo_type = ENCODER_TIMEOUT_FLAG\<rparr>]
        else []) \<and>
     encoder_time h' =
       (if encoder_ready sh \<noteq> 0 \<or> ENCODER_TIMEOUT * CLOCKS_PER_SEC < sint (ct - encoder_time h)
        then ct else encoder_time h) \<and>
     current_time h' = ct \<and>
     tmo_header (timeout_packet h') = tmo_header (timeout_packet h)"
proof -
  let ?h0 = "h\<lparr>current_time := ct\<rparr>"
  have b0: "batches_empty ?h0" using assms(2) by (simp add: batches_empty_def)
  from drain_channels_host [OF assms(1) b0] obtain h1 where
    d: "drain_channels (sh, ?h0) =
          Inr (sh\<lparr>encoder_ready := 0, limit_ready := 0, error_ready := 0\<rparr>, h1)" and
    e: "(encoder_to_send h1, encoder_index h1) =
       (if encoder_ready sh = 0 then (encoder_to_send ?h0, 0)
        else ([ready_slot (encoder_ready sh) (encoder_packets sh)], 1))" and
    l: "(limit_to_send h1, limit_index h1) =
       (if limit_ready sh = 0 then (limit_to_send ?h0, 0)
        else ([ready_slot (limit_ready sh) (limit_packets sh)], 1))" and
    r: "(error_to_send h1, error_index h1) =
       (if error_ready sh = 0 then (error_to_send ?h0, 0)
        else ([ready_slot (error_ready sh) (error_packets sh)], 1))" and
    t: "current_time h1 = current_time ?h0"
       "encoder_time h1 = (if encoder_ready sh = 0 then encoder_time ?h0 else current_time ?h0)"
       "timeout_packet h1 = timeout_packet ?h0" and
    c: "calls h1 = calls ?h0 @
       (if limit_ready sh = 0 then []
        else [Printf_limit_state (lim_state (ready_slot (limit_ready sh) (limit_packets sh)))])"
    by blast
  let ?sh' = "sh\<lparr>encoder_ready := 0, limit_ready := 0, error_ready := 0\<rparr>"
  from dispatch_result [of ?sh' h1] obtain h' where
    p: "dispatch (?sh', h1) = (?sh', h')" and
    pc: "calls h' = calls h1 @
       (if encoder_index h1 = ENCODER_PACKETS_TO_SEND then [Sendto_encoder (encoder_to_send h1)] else []) @
       (if limit_index h1 = LIMIT_PACKETS_TO_SEND
        then [Printf_sending_limit (current_time h1), Sendto_limit (limit_to_send h1)] else []) @
       (if error_index h1 = ERROR_PACKETS_TO_SEND
        then [Printf_sending_error (current_time h1), Sendto_error (error_to_send h1)] else []) @
       (if encoder_stale h1
        then [Printf_sending_timeout (current_time h1),
              Sendto_timeout ((timeout_packet h1)\<lparr>tmo_type := ENCODER_TIMEOUT_FLAG\<rparr>)] else [])" and
    pi: "encoder_index h' = (if encoder_index h1 = ENCODER_PACKETS_TO_SEND then 0 else encoder_index h1)"
        "limit_index h' = (if limit_index h1 = LIMIT_PACKETS_TO_SEND then 0 else limit_index h1)"
        "error_index h' = (if error_index h1 = ERROR_PACKETS_TO_SEND then 0 else error_index h1)" and
    pt: "encoder_time h' = (if encoder_stale h1 then current_time h1 else encoder_time h1)"
        "current_time h' = current_time h1" and
    ps: "encoder_to_send h' = encoder_to_send h1" "limit_to_send h' = limit_to_send h1"
        "error_to_send h' = error_to_send h1" and
    ph: "tmo_header (timeout_packet h') = tmo_header (timeout_packet h1)"
    by blast
  have stale: "encoder_stale h1 \<longleftrightarrow>
      encoder_ready sh = 0 \<and> ENCODER_TIMEOUT * CLOCKS_PER_SEC < sint (ct - encoder_time h)"
    using t by (simp add: encoder_stale_iff ENCODER_TIMEOUT_def CLOCKS_PER_SEC_def)
  have run: "loop_body ct (sh, h) = Inr (?sh', h')"
    using d p by (simp add: loop_body_def)
  have idx: "encoder_index h1 = (if encoder_ready sh = 0 then 0 else 1)"
       "limit_index h1 = (if limit_ready sh = 0 then 0 else 1)"
       "error_index h1 = (if error_ready sh = 0 then 0 else 1)"
    using e l r by (auto split: if_splits)
  have snd: "encoder_to_send h1 = (if encoder_ready sh = 0 then encoder_to_send h
               else [ready_slot (encoder_ready sh) (encoder_packets sh)])"
       "limit_to_send h1 = (if limit_ready sh = 0 then limit_to_send h
               else [ready_slot (limit_ready sh) (limit_packets sh)])"
       "error_to_send h1 = (if error_ready sh = 0 then error_to_send h
               else [ready_slot (error_ready sh) (error_packets sh)])"
    using e l r by (auto split: if_splits)
  have be: "batches_empty h'"
    using assms(2) pi ps idx snd
    by (simp add: batches_empty_def ENCODER_PACKETS_TO_SEND_def LIMIT_PACKETS_TO_SEND_def
        ERROR_PACKETS_TO_SEND_def)
  have tp: "(timeout_packet h)\<lparr>tmo_type := ENCODER_TIMEOUT_FLAG\<rparr> =
        \<lparr>tmo_header = tmo_header (timeout_packet h), tmo_type = ENCODER_TIMEOUT_FLAG\<rparr>"
    by (cases "timeout_packet h") simp
  have cs: "calls h' = calls h @
       (if limit_ready sh = 0 then []
        else [Printf_limit_state (lim_state (ready_slot (limit_ready sh) (limit_packets sh)))]) @
       (if encoder_ready sh = 0 then []
        else [Sendto_encoder [ready_slot (encoder_ready sh) (encoder_packets sh)]]) @
       (if limit_ready sh = 0 then []
        else [Printf_sending_limit ct, Sendto_limit [ready_slot (limit_ready sh) (limit_packets sh)]]) @
       (if error_ready sh = 0 then []
        else [Printf_sending_error ct, Sendto_error [ready_slot (error_ready sh) (error_packets sh)]]) @
       (if encoder_ready sh = 0 \<and> ENCODER_TIMEOUT * CLOCKS_PER_SEC < sint (ct - encoder_time h)
        then [Printf_sending_timeout ct,
              Sendto_timeout \<lparr>tmo_header = tmo_header (timeout_packet h), tmo_type = ENCODER_TIMEOUT_FLAG\<rparr>]
        else [])"
    unfolding pc c stale idx snd t tp [symmetric]
    by (simp add: ENCODER_PACKETS_TO_SEND_def LIMIT_PACKETS_TO_SEND_def ERROR_PACKETS_TO_SEND_def)
  have et: "encoder_time h' =
       (if encoder_ready sh \<noteq> 0 \<or> ENCODER_TIMEOUT * CLOCKS_PER_SEC < sint (ct - encoder_time h)
        then ct else encoder_time h)"
    unfolding pt stale t by simp
  have ct: "current_time h' = ct" using pt t by simp
  have hd: "tmo_header (timeout_packet h') = tmo_header (timeout_packet h)" using ph t by simp
  from run be cs et ct hd show ?thesis by blast
qed

lemma drain_encoder_in_range:
  "encoder_ready sh \<le> 2 \<Longrightarrow> drain_encoder (sh, h) \<noteq> Inl Shared_index_out_of_range"
  using copy_slot_in_range [of "encoder_ready sh" "encoder_packets sh" "encoder_index h" "encoder_to_send h"]
  by (auto simp: drain_encoder_def copy_encoder_def then_do_def split: sum.splits)

lemma drain_error_in_range:
  "error_ready sh \<le> 2 \<Longrightarrow> drain_error (sh, h) \<noteq> Inl Shared_index_out_of_range"
  using copy_slot_in_range [of "error_ready sh" "error_packets sh" "error_index h" "error_to_send h"]
  by (auto simp: drain_error_def copy_error_def then_do_def split: sum.splits)

lemma drain_limit_in_range:
  "limit_ready sh \<le> 2 \<Longrightarrow> drain_limit (sh, h) \<noteq> Inl Shared_index_out_of_range"
  using copy_slot_in_range [of "limit_ready sh" "limit_packets sh" "limit_index h" "limit_to_send h"]
    copy_slot_offset [of "limit_ready sh" "limit_packets sh" "limit_index h" "limit_to_send h"]
  by (auto simp: drain_limit_def copy_limit_def print_limit_def then_do_def
      split: sum.splits option.splits)

lemma drain_channels_in_range:
  assumes "ready_in_range sh"
  shows "drain_channels (sh, h) \<noteq> Inl Shared_index_out_of_range"
proof (cases "drain_encoder (sh, h)")
  case (Inl e)
  with drain_encoder_in_range [of sh h] assms show ?thesis
    by (simp add: drain_channels_def ready_in_range_def)
next
  case (Inr s1)
  obtain sh1 h1 where s1: "s1 = (sh1, h1)" by (cases s1)
  with Inr have sh1: "sh1 = sh\<lparr>encoder_ready := 0\<rparr>" by (simp add: drain_encoder_region)
  show ?thesis
  proof (cases "drain_limit (sh1, h1)")
    case (Inl e)
    with drain_limit_in_range [of sh1 h1] assms sh1 Inr s1 show ?thesis
      by (simp add: drain_channels_def ready_in_range_def)
  next
    case r2: (Inr s2)
    obtain sh2 h2 where s2: "s2 = (sh2, h2)" by (cases s2)
    with r2 have sh2: "sh2 = sh1\<lparr>limit_ready := 0\<rparr>" by (simp add: drain_limit_region)
    with drain_error_in_range [of sh2 h2] assms sh1 Inr s1 r2 s2 show ?thesis
      by (simp add: drain_channels_def ready_in_range_def)
  qed
qed

lemma loop_body_in_range:
  "ready_in_range sh \<Longrightarrow> loop_body ct (sh, h) \<noteq> Inl Shared_index_out_of_range"
  using drain_channels_in_range [of sh "h\<lparr>current_time := ct\<rparr>"]
  by (auto simp: loop_body_def then_do_def split: sum.splits)

lemma drain_encoder_no_check:
  "2 < encoder_ready sh \<Longrightarrow> drain_encoder (sh, h) = Inl Shared_index_out_of_range"
  by (auto simp: drain_encoder_def copy_encoder_def copy_slot_no_check)

lemma example_region_in_range: "ready_in_range example_region"
  by (simp add: ready_in_range_def example_region_def)

lemma example_host_empty: "batches_empty example_host"
  by (simp add: batches_empty_def example_host_def daq_init_def host_globals_def
      ENCODER_PACKETS_TO_SEND_def LIMIT_PACKETS_TO_SEND_def ERROR_PACKETS_TO_SEND_def)

subsection \<open>C2: the encoder staleness check\<close>

text \<open>
  Claim C2. When more than 10 seconds have passed on the staleness clock
  (\<^verbatim>\<open>encoder_time\<close>, set by every encoder drain) the pass sends exactly one Timeout
  packet of type \<^verbatim>\<open>ENCODER_TIMEOUT_FLAG\<close> and resets the staleness clock to the
  current time; a pass that drains the encoder, or in which the threshold is not exceeded,
  sends none. The next Timeout packet therefore needs a pass without encoder drain whose
  time is more than the threshold past the reset clock. The pass returns normally and
  leaves the run flag alone: a timeout does not end the loop.
\<close>

theorem stale_encoder_sends_one_timeout:
  assumes "ready_in_range sh" and "batches_empty h"
  shows "\<exists>h'. loop_body ct (sh, h) =
            Inr (sh\<lparr>encoder_ready := 0, limit_ready := 0, error_ready := 0\<rparr>, h') \<and>
          on (sh\<lparr>encoder_ready := 0, limit_ready := 0, error_ready := 0\<rparr>) = on sh \<and>
          batches_empty h' \<and>
          timeout_datagrams (new_calls h h') =
            (if encoder_ready sh = 0 \<and> ENCODER_TIMEOUT * CLOCKS_PER_SEC < sint (ct - encoder_time h)
             then [\<lparr>tmo_header = tmo_header (timeout_packet h), tmo_type = ENCODER_TIMEOUT_FLAG\<rparr>]
             else []) \<and>
          encoder_time h' =
            (if encoder_ready sh \<noteq> 0 \<or> ENCODER_TIMEOUT * CLOCKS_PER_SEC < sint (ct - encoder_time h)
             then ct else encoder_time h) \<and>
          (\<forall>sh2 ct2. ready_in_range sh2 \<longrightarrow>
             (\<exists>h''. loop_body ct2 (sh2, h') =
                  Inr (sh2\<lparr>encoder_ready := 0, limit_ready := 0, error_ready := 0\<rparr>, h'') \<and>
                (timeout_datagrams (new_calls h' h'') \<noteq> [] \<longrightarrow>
                   encoder_ready sh2 = 0 \<and>
                   ENCODER_TIMEOUT * CLOCKS_PER_SEC < sint (ct2 - encoder_time h'))))"
proof -
  let ?sh0 = "sh\<lparr>encoder_ready := 0, limit_ready := 0, error_ready := 0\<rparr>"
  from loop_body_pass [OF assms, of ct] obtain h' where
    p: "loop_body ct (sh, h) = Inr (?sh0, h')" and b: "batches_empty h'" and
    c: "calls h' = calls h @
       (if limit_ready sh = 0 then []
        else [Printf_limit_state (lim_state (ready_slot (limit_ready sh) (limit_packets sh)))]) @
       (if encoder_ready sh = 0 then []
        else [Sendto_encoder [ready_slot (encoder_ready sh) (encoder_packets sh)]]) @
       (if limit_ready sh = 0 then []
        else [Printf_sending_limit ct, Sendto_limit [ready_slot (limit_ready sh) (limit_packets sh)]]) @
       (if error_ready sh = 0 then []
        else [Printf_sending_error ct, Sendto_error [ready_slot (error_ready sh) (error_packets sh)]]) @
       (if encoder_ready sh = 0 \<and> ENCODER_TIMEOUT * CLOCKS_PER_SEC < sint (ct - encoder_time h)
        then [Printf_sending_timeout ct,
              Sendto_timeout \<lparr>tmo_header = tmo_header (timeout_packet h), tmo_type = ENCODER_TIMEOUT_FLAG\<rparr>]
        else [])" and
    e: "encoder_time h' =
       (if encoder_ready sh \<noteq> 0 \<or> ENCODER_TIMEOUT * CLOCKS_PER_SEC < sint (ct - encoder_time h)
        then ct else encoder_time h)"
    by blast
  have t: "timeout_datagrams (new_calls h h') =
            (if encoder_ready sh = 0 \<and> ENCODER_TIMEOUT * CLOCKS_PER_SEC < sint (ct - encoder_time h)
             then [\<lparr>tmo_header = tmo_header (timeout_packet h), tmo_type = ENCODER_TIMEOUT_FLAG\<rparr>]
             else [])"
    unfolding new_calls_def c by (simp add: timeout_datagrams_append)
  have nxt: "\<forall>sh2 ct2. ready_in_range sh2 \<longrightarrow>
             (\<exists>h''. loop_body ct2 (sh2, h') =
                  Inr (sh2\<lparr>encoder_ready := 0, limit_ready := 0, error_ready := 0\<rparr>, h'') \<and>
                (timeout_datagrams (new_calls h' h'') \<noteq> [] \<longrightarrow>
                   encoder_ready sh2 = 0 \<and>
                   ENCODER_TIMEOUT * CLOCKS_PER_SEC < sint (ct2 - encoder_time h')))"
  proof (intro allI impI)
    fix sh2 ct2
    assume r2: "ready_in_range sh2"
    from loop_body_pass [OF r2 b, of ct2] obtain h'' where
      p2: "loop_body ct2 (sh2, h') =
             Inr (sh2\<lparr>encoder_ready := 0, limit_ready := 0, error_ready := 0\<rparr>, h'')" and
      c2: "calls h'' = calls h' @
       (if limit_ready sh2 = 0 then []
        else [Printf_limit_state (lim_state (ready_slot (limit_ready sh2) (limit_packets sh2)))]) @
       (if encoder_ready sh2 = 0 then []
        else [Sendto_encoder [ready_slot (encoder_ready sh2) (encoder_packets sh2)]]) @
       (if limit_ready sh2 = 0 then []
        else [Printf_sending_limit ct2, Sendto_limit [ready_slot (limit_ready sh2) (limit_packets sh2)]]) @
       (if error_ready sh2 = 0 then []
        else [Printf_sending_error ct2, Sendto_error [ready_slot (error_ready sh2) (error_packets sh2)]]) @
       (if encoder_ready sh2 = 0 \<and> ENCODER_TIMEOUT * CLOCKS_PER_SEC < sint (ct2 - encoder_time h')
        then [Printf_sending_timeout ct2,
              Sendto_timeout \<lparr>tmo_header = tmo_header (timeout_packet h'), tmo_type = ENCODER_TIMEOUT_FLAG\<rparr>]
        else [])"
      by blast
    have "timeout_datagrams (new_calls h' h'') \<noteq> [] \<longrightarrow>
            encoder_ready sh2 = 0 \<and> ENCODER_TIMEOUT * CLOCKS_PER_SEC < sint (ct2 - encoder_time h')"
      unfolding new_calls_def c2 by (simp add: timeout_datagrams_append)
    with p2 show "\<exists>h''. loop_body ct2 (sh2, h') =
                  Inr (sh2\<lparr>encoder_ready := 0, limit_ready := 0, error_ready := 0\<rparr>, h'') \<and>
                (timeout_datagrams (new_calls h' h'') \<noteq> [] \<longrightarrow>
                   encoder_ready sh2 = 0 \<and>
                   ENCODER_TIMEOUT * CLOCKS_PER_SEC < sint (ct2 - encoder_time h'))"
      by blast
  qed
  have o: "on ?sh0 = on sh" by simp
  from p o b t e nxt show ?thesis by blast
qed


lemma idle_region_in_range: "ready_in_range idle_region"
  by (simp add: ready_in_range_def idle_region_def example_region_def)

theorem stale_encoder_sends_one_timeout_witness:
  "ready_in_range idle_region \<and> batches_empty example_host \<and>
   (\<exists>h'. loop_body 10000001 (idle_region, example_host) =
            Inr (idle_region\<lparr>encoder_ready := 0, limit_ready := 0, error_ready := 0\<rparr>, h') \<and>
          timeout_datagrams (new_calls example_host h') =
            [\<lparr>tmo_header = TIMEOUT_HEADER, tmo_type = ENCODER_TIMEOUT_FLAG\<rparr>] \<and>
          encoder_time h' = 10000001 \<and>
          (\<exists>h''. loop_body 20000001 (idle_region, h') =
                  Inr (idle_region\<lparr>encoder_ready := 0, limit_ready := 0, error_ready := 0\<rparr>, h'') \<and>
                timeout_datagrams (new_calls h' h'') = [])) \<and>
   (\<exists>h'. loop_body 10000000 (idle_region, example_host) =
            Inr (idle_region\<lparr>encoder_ready := 0, limit_ready := 0, error_ready := 0\<rparr>, h') \<and>
          timeout_datagrams (new_calls example_host h') = [] \<and>
          encoder_time h' = 0)"
proof -
  have e: "encoder_ready idle_region = 0" "encoder_time example_host = 0"
    "tmo_header (timeout_packet example_host) = TIMEOUT_HEADER"
    by (simp_all add: idle_region_def example_host_def daq_init_def host_globals_def)
  have late: "ENCODER_TIMEOUT * CLOCKS_PER_SEC < sint (10000001 - 0 :: clock_t)"
    by (simp add: ENCODER_TIMEOUT_def CLOCKS_PER_SEC_def)
  have early: "\<not> ENCODER_TIMEOUT * CLOCKS_PER_SEC < sint (10000000 - 0 :: clock_t)"
    by (simp add: ENCODER_TIMEOUT_def CLOCKS_PER_SEC_def)
  have again: "\<not> ENCODER_TIMEOUT * CLOCKS_PER_SEC < sint (20000001 - 10000001 :: clock_t)"
    by (simp add: ENCODER_TIMEOUT_def CLOCKS_PER_SEC_def)
  from stale_encoder_sends_one_timeout [OF idle_region_in_range example_host_empty, of 10000001]
  obtain h' where
    p: "loop_body 10000001 (idle_region, example_host) =
            Inr (idle_region\<lparr>encoder_ready := 0, limit_ready := 0, error_ready := 0\<rparr>, h')" and
    t: "timeout_datagrams (new_calls example_host h') =
            [\<lparr>tmo_header = TIMEOUT_HEADER, tmo_type = ENCODER_TIMEOUT_FLAG\<rparr>]" and
    c: "encoder_time h' = 10000001" and
    n: "\<forall>sh2 ct2. ready_in_range sh2 \<longrightarrow>
             (\<exists>h''. loop_body ct2 (sh2, h') =
                  Inr (sh2\<lparr>encoder_ready := 0, limit_ready := 0, error_ready := 0\<rparr>, h'') \<and>
                (timeout_datagrams (new_calls h' h'') \<noteq> [] \<longrightarrow>
                   encoder_ready sh2 = 0 \<and>
                   ENCODER_TIMEOUT * CLOCKS_PER_SEC < sint (ct2 - encoder_time h')))"
    unfolding e using late by auto
  from n [rule_format, OF idle_region_in_range, of 20000001] again c
  have "\<exists>h''. loop_body 20000001 (idle_region, h') =
                  Inr (idle_region\<lparr>encoder_ready := 0, limit_ready := 0, error_ready := 0\<rparr>, h'') \<and>
                timeout_datagrams (new_calls h' h'') = []"
    by auto
  with p t c have a: "\<exists>h'. loop_body 10000001 (idle_region, example_host) =
            Inr (idle_region\<lparr>encoder_ready := 0, limit_ready := 0, error_ready := 0\<rparr>, h') \<and>
          timeout_datagrams (new_calls example_host h') =
            [\<lparr>tmo_header = TIMEOUT_HEADER, tmo_type = ENCODER_TIMEOUT_FLAG\<rparr>] \<and>
          encoder_time h' = 10000001 \<and>
          (\<exists>h''. loop_body 20000001 (idle_region, h') =
                  Inr (idle_region\<lparr>encoder_ready := 0, limit_ready := 0, error_ready := 0\<rparr>, h'') \<and>
                timeout_datagrams (new_calls h' h'') = [])"
    by blast
  from stale_encoder_sends_one_timeout [OF idle_region_in_range example_host_empty, of 10000000]
  have b: "\<exists>h'. loop_body 10000000 (idle_region, example_host) =
            Inr (idle_region\<lparr>encoder_ready := 0, limit_ready := 0, error_ready := 0\<rparr>, h') \<and>
          timeout_datagrams (new_calls example_host h') = [] \<and>
          encoder_time h' = 0"
    unfolding e using early by auto
  from a b idle_region_in_range example_host_empty show ?thesis by blast
qed

subsection \<open>C3: a full batch is sent as one datagram holding the copied buffer\<close>

text \<open>
  Claim C3. With batch size 1, a channel whose fill count equals its batch size is sent
  with one \<^verbatim>\<open>sendto\<close> and its fill count is reset to 0; the encoder datagram is the
  send array holding exactly the 120-sample struct copied out of the ready slot in the same
  pass (and likewise for the limit and error channels). A channel that was not ready sends
  nothing.
\<close>

theorem full_batch_sent_as_copied:
  assumes "ready_in_range sh" and "batches_empty h"
  shows "(\<exists>h'. loop_body ct (sh, h) =
            Inr (sh\<lparr>encoder_ready := 0, limit_ready := 0, error_ready := 0\<rparr>, h') \<and>
          encoder_datagrams (new_calls h h') =
            (if encoder_ready sh = 0 then []
             else [[ready_slot (encoder_ready sh) (encoder_packets sh)]]) \<and>
          limit_datagrams (new_calls h h') =
            (if limit_ready sh = 0 then []
             else [[ready_slot (limit_ready sh) (limit_packets sh)]]) \<and>
          error_datagrams (new_calls h h') =
            (if error_ready sh = 0 then []
             else [[ready_slot (error_ready sh) (error_packets sh)]]) \<and>
          encoder_index h' = 0 \<and> limit_index h' = 0 \<and> error_index h' = 0) \<and>
         (\<forall>r g. encoder_index g = ENCODER_PACKETS_TO_SEND \<longrightarrow>
            send_encoder (r, g) =
              (r, g\<lparr>encoder_index := 0, calls := calls g @ [Sendto_encoder (encoder_to_send g)]\<rparr>)) \<and>
         (\<forall>r g. limit_index g = LIMIT_PACKETS_TO_SEND \<longrightarrow>
            send_limit (r, g) =
              (r, g\<lparr>limit_index := 0,
                    calls := calls g @ [Printf_sending_limit (current_time g),
                                        Sendto_limit (limit_to_send g)]\<rparr>)) \<and>
         (\<forall>r g. error_index g = ERROR_PACKETS_TO_SEND \<longrightarrow>
            send_error (r, g) =
              (r, g\<lparr>error_index := 0,
                    calls := calls g @ [Printf_sending_error (current_time g),
                                        Sendto_error (error_to_send g)]\<rparr>))"
proof -
  let ?sh0 = "sh\<lparr>encoder_ready := 0, limit_ready := 0, error_ready := 0\<rparr>"
  from loop_body_pass [OF assms, of ct] obtain h' where
    p: "loop_body ct (sh, h) = Inr (?sh0, h')" and b: "batches_empty h'" and
    c: "calls h' = calls h @
       (if limit_ready sh = 0 then []
        else [Printf_limit_state (lim_state (ready_slot (limit_ready sh) (limit_packets sh)))]) @
       (if encoder_ready sh = 0 then []
        else [Sendto_encoder [ready_slot (encoder_ready sh) (encoder_packets sh)]]) @
       (if limit_ready sh = 0 then []
        else [Printf_sending_limit ct, Sendto_limit [ready_slot (limit_ready sh) (limit_packets sh)]]) @
       (if error_ready sh = 0 then []
        else [Printf_sending_error ct, Sendto_error [ready_slot (error_ready sh) (error_packets sh)]]) @
       (if encoder_ready sh = 0 \<and> ENCODER_TIMEOUT * CLOCKS_PER_SEC < sint (ct - encoder_time h)
        then [Printf_sending_timeout ct,
              Sendto_timeout \<lparr>tmo_header = tmo_header (timeout_packet h), tmo_type = ENCODER_TIMEOUT_FLAG\<rparr>]
        else [])"
    by blast
  have e: "encoder_datagrams (new_calls h h') =
            (if encoder_ready sh = 0 then []
             else [[ready_slot (encoder_ready sh) (encoder_packets sh)]])"
    unfolding new_calls_def c by (simp add: encoder_datagrams_append)
  have l: "limit_datagrams (new_calls h h') =
            (if limit_ready sh = 0 then []
             else [[ready_slot (limit_ready sh) (limit_packets sh)]])"
    unfolding new_calls_def c by (simp add: limit_datagrams_append)
  have r: "error_datagrams (new_calls h h') =
            (if error_ready sh = 0 then []
             else [[ready_slot (error_ready sh) (error_packets sh)]])"
    unfolding new_calls_def c by (simp add: error_datagrams_append)
  from b have i: "encoder_index h' = 0" "limit_index h' = 0" "error_index h' = 0"
    by (simp_all add: batches_empty_def)
  have se: "\<forall>r g. encoder_index g = ENCODER_PACKETS_TO_SEND \<longrightarrow>
            send_encoder (r, g) =
              (r, g\<lparr>encoder_index := 0, calls := calls g @ [Sendto_encoder (encoder_to_send g)]\<rparr>)"
    by (simp add: send_encoder_def emit_def)
  have sl: "\<forall>r g. limit_index g = LIMIT_PACKETS_TO_SEND \<longrightarrow>
            send_limit (r, g) =
              (r, g\<lparr>limit_index := 0,
                    calls := calls g @ [Printf_sending_limit (current_time g),
                                        Sendto_limit (limit_to_send g)]\<rparr>)"
    by (simp add: send_limit_def emit_def)
  have sr: "\<forall>r g. error_index g = ERROR_PACKETS_TO_SEND \<longrightarrow>
            send_error (r, g) =
              (r, g\<lparr>error_index := 0,
                    calls := calls g @ [Printf_sending_error (current_time g),
                                        Sendto_error (error_to_send g)]\<rparr>)"
    by (simp add: send_error_def emit_def)
  from p e l r i se sl sr show ?thesis by blast
qed

theorem full_batch_sent_as_copied_witness:
  "ready_in_range example_region \<and> batches_empty example_host \<and>
   (\<exists>h'. loop_body 9 (example_region, example_host) =
            Inr (example_region\<lparr>encoder_ready := 0, limit_ready := 0, error_ready := 0\<rparr>, h') \<and>
          encoder_datagrams (new_calls example_host h') = [[snd (encoder_packets example_region)]] \<and>
          limit_datagrams (new_calls example_host h') = [[fst (limit_packets example_region)]] \<and>
          error_datagrams (new_calls example_host h') = [] \<and>
          encoder_index h' = 0 \<and> limit_index h' = 0 \<and> error_index h' = 0) \<and>
   encoder_index (example_host\<lparr>encoder_index := 1\<rparr>) = ENCODER_PACKETS_TO_SEND \<and>
   send_encoder (example_region, example_host\<lparr>encoder_index := 1\<rparr>) =
     (example_region,
      example_host\<lparr>encoder_index := 0, calls := [Sendto_encoder (encoder_to_send example_host)]\<rparr>) \<and>
   limit_index (example_host\<lparr>limit_index := 1\<rparr>) = LIMIT_PACKETS_TO_SEND \<and>
   send_limit (example_region, example_host\<lparr>limit_index := 1\<rparr>) =
     (example_region,
      example_host\<lparr>limit_index := 0,
        calls := [Printf_sending_limit 5, Sendto_limit (limit_to_send example_host)]\<rparr>) \<and>
   error_index (example_host\<lparr>error_index := 1\<rparr>) = ERROR_PACKETS_TO_SEND \<and>
   send_error (example_region, example_host\<lparr>error_index := 1\<rparr>) =
     (example_region,
      example_host\<lparr>error_index := 0,
        calls := [Printf_sending_error 5, Sendto_error (error_to_send example_host)]\<rparr>)"
proof -
  have e: "encoder_ready example_region = 2" "limit_ready example_region = 1"
    "error_ready example_region = 0"
    by (simp_all add: example_region_def)
  note inst = full_batch_sent_as_copied [OF example_region_in_range example_host_empty, of 9]
  from inst [THEN conjunct1]
  have a: "\<exists>h'. loop_body 9 (example_region, example_host) =
            Inr (example_region\<lparr>encoder_ready := 0, limit_ready := 0, error_ready := 0\<rparr>, h') \<and>
          encoder_datagrams (new_calls example_host h') = [[snd (encoder_packets example_region)]] \<and>
          limit_datagrams (new_calls example_host h') = [[fst (limit_packets example_region)]] \<and>
          error_datagrams (new_calls example_host h') = [] \<and>
          encoder_index h' = 0 \<and> limit_index h' = 0 \<and> error_index h' = 0"
    unfolding e by (auto simp: ready_slot_def)
  have i: "encoder_index (example_host\<lparr>encoder_index := 1\<rparr>) = ENCODER_PACKETS_TO_SEND"
    "limit_index (example_host\<lparr>limit_index := 1\<rparr>) = LIMIT_PACKETS_TO_SEND"
    "error_index (example_host\<lparr>error_index := 1\<rparr>) = ERROR_PACKETS_TO_SEND"
    by (simp_all add: ENCODER_PACKETS_TO_SEND_def LIMIT_PACKETS_TO_SEND_def ERROR_PACKETS_TO_SEND_def)
  have c: "calls example_host = []" "current_time example_host = 5"
    by (simp_all add: example_host_def daq_init_def host_globals_def)
  from inst [THEN conjunct2, THEN conjunct1, rule_format, OF i(1), of example_region]
  have s1: "send_encoder (example_region, example_host\<lparr>encoder_index := 1\<rparr>) =
     (example_region,
      example_host\<lparr>encoder_index := 0, calls := [Sendto_encoder (encoder_to_send example_host)]\<rparr>)"
    by (simp add: c)
  from inst [THEN conjunct2, THEN conjunct2, THEN conjunct1, rule_format, OF i(2), of example_region]
  have s2: "send_limit (example_region, example_host\<lparr>limit_index := 1\<rparr>) =
     (example_region,
      example_host\<lparr>limit_index := 0,
        calls := [Printf_sending_limit 5, Sendto_limit (limit_to_send example_host)]\<rparr>)"
    by (simp add: c)
  from inst [THEN conjunct2, THEN conjunct2, THEN conjunct2, rule_format, OF i(3), of example_region]
  have s3: "send_error (example_region, example_host\<lparr>error_index := 1\<rparr>) =
     (example_region,
      example_host\<lparr>error_index := 0,
        calls := [Printf_sending_error 5, Sendto_error (error_to_send example_host)]\<rparr>)"
    by (simp add: c)
  from a i s1 s2 s3 example_region_in_range example_host_empty show ?thesis by blast
qed


subsection \<open>C9: the loop body writes only the three ready indices\<close>

text \<open>
  Claim C9. A pass of the loop changes nothing in the shared region but the three ready
  indices, which it leaves at 0: the run flag, the overflow counter and all six packet
  slots are as before.
\<close>

theorem loop_body_writes_only_ready_flags:
  assumes "loop_body ct (sh, h) = Inr (sh', h')"
  shows "sh' = sh\<lparr>encoder_ready := 0, limit_ready := 0, error_ready := 0\<rparr> \<and>
         on sh' = on sh \<and> clock_overflow sh' = clock_overflow sh \<and>
         encoder_packets sh' = encoder_packets sh \<and>
         limit_packets sh' = limit_packets sh \<and>
         error_packets sh' = error_packets sh \<and>
         encoder_ready sh' = 0 \<and> limit_ready sh' = 0 \<and> error_ready sh' = 0"
  using loop_body_region [OF assms] by simp

theorem loop_body_writes_only_ready_flags_witness:
  "\<exists>sh' h'. loop_body 9 (example_region, example_host) = Inr (sh', h') \<and>
      on sh' = 0 \<and> clock_overflow sh' = 3 \<and>
      encoder_packets sh' = (zero_EncoderInfo, zero_EncoderInfo\<lparr>enc_header := ENCODER_HEADER\<rparr>) \<and>
      snd (limit_packets sh') = zero_LimitInfo \<and>
      error_packets sh' = (zero_ErrorInfo, zero_ErrorInfo) \<and>
      encoder_ready sh' = 0 \<and> limit_ready sh' = 0 \<and> error_ready sh' = 0"
proof -
  from loop_body_pass [OF example_region_in_range example_host_empty, of 9]
  obtain h' where p: "loop_body 9 (example_region, example_host) =
      Inr (example_region\<lparr>encoder_ready := 0, limit_ready := 0, error_ready := 0\<rparr>, h')"
    by blast
  from loop_body_writes_only_ready_flags [OF p] p show ?thesis
    by (simp add: example_region_def)
qed

subsection \<open>C10: ready indices in range keep every slot access in bounds\<close>

text \<open>
  Claim C10. The host indexes the two-slot array with \<open>ready_index - 1\<close> and no range
  check: a ready index above 2 reaches the out-of-range branch. When every ready index is
  0, 1 or 2, no access of a pass to the shared slots is out of range.
\<close>

theorem ready_in_range_keeps_reads_in_bounds:
  "(ready_in_range sh \<longrightarrow> loop_body ct (sh, h) \<noteq> Inl Shared_index_out_of_range) \<and>
   (r \<le> 2 \<longrightarrow> r \<noteq> 0 \<longrightarrow> copy_slot r b i ts \<noteq> Inl Shared_index_out_of_range) \<and>
   (2 < r \<longrightarrow> copy_slot r b i ts = Inl Shared_index_out_of_range) \<and>
   (2 < encoder_ready sh \<longrightarrow> loop_body ct (sh, h) = Inl Shared_index_out_of_range)"
proof -
  have "2 < encoder_ready sh \<longrightarrow> loop_body ct (sh, h) = Inl Shared_index_out_of_range"
    by (simp add: loop_body_def drain_channels_def drain_encoder_no_check)
  then show ?thesis
    using loop_body_in_range [of sh ct h] copy_slot_in_range [of r b i ts]
      copy_slot_no_check [of r b i ts]
    by blast
qed

theorem ready_in_range_keeps_reads_in_bounds_witness:
  "ready_in_range example_region \<and>
   loop_body 9 (example_region, example_host) \<noteq> Inl Shared_index_out_of_range \<and>
   copy_slot 2 (encoder_packets example_region) 0 (encoder_to_send example_host)
     \<noteq> Inl Shared_index_out_of_range \<and>
   copy_slot 3 (encoder_packets example_region) 0 (encoder_to_send example_host)
     = Inl Shared_index_out_of_range \<and>
   loop_body 9 (example_region\<lparr>encoder_ready := 3\<rparr>, example_host) = Inl Shared_index_out_of_range"
proof -
  have a: "(2::ulong) \<le> 2" "(2::ulong) \<noteq> 0" "(2::ulong) < 3" by simp_all
  have c: "2 < encoder_ready (example_region\<lparr>encoder_ready := 3\<rparr>)" by simp
  from ready_in_range_keeps_reads_in_bounds
    [of example_region 9 example_host 2 "encoder_packets example_region" 0
        "encoder_to_send example_host"]
    ready_in_range_keeps_reads_in_bounds
    [of "example_region\<lparr>encoder_ready := 3\<rparr>" 9 example_host 3
        "encoder_packets example_region" 0 "encoder_to_send example_host"]
    example_region_in_range a c
  show ?thesis by blast
qed

lemma drain_limit_no_check:
  "2 < limit_ready sh \<Longrightarrow> drain_limit (sh, h) = Inl Shared_index_out_of_range"
  by (auto simp: drain_limit_def copy_limit_def copy_slot_no_check)

lemma drain_error_no_check:
  "2 < error_ready sh \<Longrightarrow> drain_error (sh, h) = Inl Shared_index_out_of_range"
  by (auto simp: drain_error_def copy_error_def copy_slot_no_check)

lemma drain_channels_Inr_in_range:
  assumes "drain_channels (sh, h) = Inr s'"
  shows "ready_in_range sh"
proof -
  from assms obtain sh1 h1 sh2 h2 where
    e: "drain_encoder (sh, h) = Inr (sh1, h1)" and
    l: "drain_limit (sh1, h1) = Inr (sh2, h2)" and
    r: "drain_error (sh2, h2) = Inr s'"
    by (auto simp: drain_channels_def then_do_def split: sum.splits)
  have s1: "sh1 = sh\<lparr>encoder_ready := 0\<rparr>" using e by (rule drain_encoder_region)
  have s2: "sh2 = sh1\<lparr>limit_ready := 0\<rparr>" using l by (rule drain_limit_region)
  have "\<not> 2 < encoder_ready sh" using e drain_encoder_no_check [of sh h] by auto
  moreover have "\<not> 2 < limit_ready sh1" using l drain_limit_no_check [of sh1 h1] by auto
  moreover have "\<not> 2 < error_ready sh2" using r drain_error_no_check [of sh2 h2] by auto
  ultimately show ?thesis using s1 s2 by (simp add: ready_in_range_def not_less)
qed

lemma loop_body_Inr_in_range: "loop_body ct (sh, h) = Inr s' \<Longrightarrow> ready_in_range sh"
  using drain_channels_Inr_in_range [of sh "h\<lparr>current_time := ct\<rparr>"]
  by (auto simp: loop_body_def then_do_def split: sum.splits)

lemma loop_body_keeps_batches_empty:
  assumes "loop_body ct (sh, h) = Inr (sh', h')" and "batches_empty h"
  shows "batches_empty h'"
  using loop_body_pass [OF loop_body_Inr_in_range [OF assms(1)] assms(2), of ct] assms(1)
  by auto

lemma acquisition_loop_exit:
  "acquisition_loop sched (sh, h) = Loop_exit (sh', h') \<Longrightarrow>
   on sh' = 1 \<and> (batches_empty h \<longrightarrow> batches_empty h')"
proof (induction sched "(sh, h)" arbitrary: sh h rule: acquisition_loop.induct)
  case (1 sh h)
  then show ?case by (auto split: if_splits)
next
  case (2 ct env rest sh h)
  show ?case
  proof (cases "on sh \<noteq> 1")
    case False
    with 2 show ?thesis by simp
  next
    case True
    with "2.prems" obtain sh1 h1 where
      p: "loop_body ct (sh, h) = Inr (sh1, h1)" and
      n: "acquisition_loop rest (env sh1, h1) = Loop_exit (sh', h')"
      by (auto split: sum.splits)
    from "2.hyps" [OF True p refl n] loop_body_keeps_batches_empty [OF p]
    show ?thesis by blast
  qed
qed

lemma after_loop_order:
  "on sh = 1 \<Longrightarrow>
   after_loop True (sh, h) =
     Returned (h\<lparr>calls := calls h @ [Pru_wait_event, Printf_all_done, Pru_disable 1,
                                      Pru_disable 0, Prussdrv_exit]\<rparr>) 0 \<and>
   after_loop False (sh, h) = Blocked (h\<lparr>calls := calls h @ [Pru_wait_event]\<rparr>)"
  by (simp add: after_loop_def emit_def Let_def)

subsection \<open>C6: leaving the loop\<close>

text \<open>
  Claim C6. The loop is left only with the run flag read as 1, and it is left at once when
  the flag is 1 (an exhausted schedule with another flag value leaves the host polling).
  After the loop the host calls \<^verbatim>\<open>prussdrv_pru_wait_event\<close> first; the two
  \<^verbatim>\<open>prussdrv_pru_disable\<close> calls and \<^verbatim>\<open>prussdrv_exit\<close> follow only once the
  interrupt has arrived (the second read of the flag sees the region as the loop left
  it). At the exit every fill count is 0: whatever a pass drained it also sent, so no
  batch is left undispatched.
\<close>

theorem loop_exits_on_run_flag_with_empty_batches:
  assumes "acquisition_loop sched (sh, h) = Loop_exit (sh', h')" and "batches_empty h"
  shows "on sh' = 1 \<and> batches_empty h' \<and>
         encoder_index h' = 0 \<and> limit_index h' = 0 \<and> error_index h' = 0 \<and>
         after_loop True (sh', h') =
           Returned (h'\<lparr>calls := calls h' @ [Pru_wait_event, Printf_all_done, Pru_disable 1,
                                              Pru_disable 0, Prussdrv_exit]\<rparr>) 0 \<and>
         after_loop False (sh', h') = Blocked (h'\<lparr>calls := calls h' @ [Pru_wait_event]\<rparr>) \<and>
         (\<forall>s g. on s = 1 \<longrightarrow> acquisition_loop sched (s, g) = Loop_exit (s, g)) \<and>
         (\<forall>s g. on s \<noteq> 1 \<longrightarrow> acquisition_loop [] (s, g) = Still_polling (s, g))"
proof -
  from acquisition_loop_exit [OF assms(1)] assms(2)
  have o: "on sh' = 1" and b: "batches_empty h'" by blast+
  have now: "\<forall>s g. on s = 1 \<longrightarrow> acquisition_loop sched (s, g) = Loop_exit (s, g)"
    by (cases sched) auto
  have never: "\<forall>s g. on s \<noteq> 1 \<longrightarrow> acquisition_loop [] (s, g) = Still_polling (s, g)"
    by simp
  from b have i: "encoder_index h' = 0" "limit_index h' = 0" "error_index h' = 0"
    by (simp_all add: batches_empty_def)
  from o b i after_loop_order [OF o, of h'] now never show ?thesis by blast
qed

theorem loop_exits_on_run_flag_with_empty_batches_witness:
  "batches_empty example_host \<and>
   (\<exists>sh' h'. acquisition_loop [(9, \<lambda>s. s\<lparr>on := 1\<rparr>), (11, \<lambda>s. s)] (example_region, example_host)
              = Loop_exit (sh', h') \<and>
      on sh' = 1 \<and> batches_empty h' \<and>
      after_loop True (sh', h') =
        Returned (h'\<lparr>calls := calls h' @ [Pru_wait_event, Printf_all_done, Pru_disable 1,
                                           Pru_disable 0, Prussdrv_exit]\<rparr>) 0 \<and>
      after_loop False (sh', h') = Blocked (h'\<lparr>calls := calls h' @ [Pru_wait_event]\<rparr>)) \<and>
   acquisition_loop [(9, \<lambda>s. s\<lparr>on := 1\<rparr>), (11, \<lambda>s. s)] (example_region\<lparr>on := 1\<rparr>, example_host)
     = Loop_exit (example_region\<lparr>on := 1\<rparr>, example_host) \<and>
   acquisition_loop [] (example_region, example_host) = Still_polling (example_region, example_host)"
proof -
  from loop_body_pass [OF example_region_in_range example_host_empty, of 9]
  obtain h1 where p: "loop_body 9 (example_region, example_host) =
      Inr (example_region\<lparr>encoder_ready := 0, limit_ready := 0, error_ready := 0\<rparr>, h1)"
    by blast
  have n: "on example_region \<noteq> 1" by (simp add: example_region_def)
  have y: "on (example_region\<lparr>on := 1\<rparr>) = 1" by simp
  let ?sh' = "example_region\<lparr>encoder_ready := 0, limit_ready := 0, error_ready := 0, on := 1\<rparr>"
  have run: "acquisition_loop [(9, \<lambda>s. s\<lparr>on := 1\<rparr>), (11, \<lambda>s. s)] (example_region, example_host)
      = Loop_exit (?sh', h1)"
    using p n by simp
  note inst = loop_exits_on_run_flag_with_empty_batches [OF run example_host_empty]
  from inst have a: "on ?sh' = 1 \<and> batches_empty h1 \<and>
      after_loop True (?sh', h1) =
        Returned (h1\<lparr>calls := calls h1 @ [Pru_wait_event, Printf_all_done, Pru_disable 1,
                                           Pru_disable 0, Prussdrv_exit]\<rparr>) 0 \<and>
      after_loop False (?sh', h1) = Blocked (h1\<lparr>calls := calls h1 @ [Pru_wait_event]\<rparr>)"
    by blast
  from inst have "\<forall>s g. on s = 1 \<longrightarrow>
      acquisition_loop [(9, \<lambda>s. s\<lparr>on := 1\<rparr>), (11, \<lambda>s. s)] (s, g) = Loop_exit (s, g)"
    by blast
  from this [rule_format, OF y]
  have b: "acquisition_loop [(9, \<lambda>s. s\<lparr>on := 1\<rparr>), (11, \<lambda>s. s)]
      (example_region\<lparr>on := 1\<rparr>, example_host) = Loop_exit (example_region\<lparr>on := 1\<rparr>, example_host)" .
  from inst have "\<forall>s g. on s \<noteq> 1 \<longrightarrow> acquisition_loop [] (s, g) = Still_polling (s, g)"
    by blast
  from this [rule_format, OF n]
  have c: "acquisition_loop [] (example_region, example_host) =
      Still_polling (example_region, example_host)" .
  from run a b c example_host_empty show ?thesis by blast
qed

section \<open>Properties of the start of \<^verbatim>\<open>main\<close>\<close>

subsection \<open>C8: the argument check\<close>

text \<open>
  Claim C8, as amended. The program prints the usage message and returns status 1 for
  every argument count other than 5, after \<^verbatim>\<open>system("./pinconfig")\<close> has run; it goes
  past the check exactly when \<^verbatim>\<open>argc\<close> is 5, that is with all four file arguments
  given. The claim as stated also lets invocations that omit the data files pass: with 3 or
  4 arguments the program prints the usage message and returns 1.
\<close>

theorem usage_exit_unless_five_arguments:
  "(argc \<noteq> 5 \<longrightarrow>
      check_arguments argc argv0 h =
        (h\<lparr>calls := calls h @ [System_pinconfig, Printf_usage argv0]\<rparr>, Some 1)) \<and>
   (argc = 5 \<longrightarrow>
      check_arguments argc argv0 h = (h\<lparr>calls := calls h @ [System_pinconfig]\<rparr>, None)) \<and>
   (snd (check_arguments argc argv0 h) = None \<longleftrightarrow> argc = 5)"
  by (simp add: check_arguments_def emit_def Let_def)

theorem usage_exit_unless_five_arguments_witness:
  "check_arguments 6 ''loader'' host_globals =
     (host_globals\<lparr>calls := [System_pinconfig, Printf_usage ''loader'']\<rparr>, Some 1) \<and>
   check_arguments 5 ''loader'' host_globals = (host_globals\<lparr>calls := [System_pinconfig]\<rparr>, None)"
  using usage_exit_unless_five_arguments [of 6 "''loader''" host_globals]
    usage_exit_unless_five_arguments [of 5 "''loader''" host_globals]
  by (simp add: host_globals_def)

theorem omitted_data_files_counterexample:
  "snd (check_arguments 3 ''loader'' host_globals) = Some 1 \<and>
   snd (check_arguments 4 ''loader'' host_globals) = Some 1"
  by (simp add: check_arguments_def Let_def)

subsection \<open>C7: what the host clears before the producers start\<close>

text \<open>
  Claim C7, as amended. Before it starts the producers the host zeroes the run flag, the
  three ready indices, both encoder slots, both limit slots and error slot 0; it does not
  touch the overflow counter (the encoder producer zeroes that itself when it starts).
  The claim as stated has the host zero the overflow counter as well: a counter that
  holds 3 before the host's initialisation holds 3 after it.
\<close>

theorem clear_region_zeroes_flags_and_slots:
  "on (clear_region sh) = 0 \<and>
   encoder_ready (clear_region sh) = 0 \<and> limit_ready (clear_region sh) = 0 \<and>
   error_ready (clear_region sh) = 0 \<and>
   encoder_packets (clear_region sh) = (zero_EncoderInfo, zero_EncoderInfo) \<and>
   limit_packets (clear_region sh) = (zero_LimitInfo, zero_LimitInfo) \<and>
   fst (error_packets (clear_region sh)) = zero_ErrorInfo \<and>
   clock_overflow (clear_region sh) = clock_overflow sh"
  by (simp add: clear_region_def Let_def)

theorem clear_region_zeroes_flags_and_slots_witness:
  "on (clear_region example_region) = 0 \<and>
   encoder_ready (clear_region example_region) = 0 \<and>
   limit_ready (clear_region example_region) = 0 \<and>
   encoder_packets (clear_region example_region) = (zero_EncoderInfo, zero_EncoderInfo) \<and>
   limit_packets (clear_region example_region) = (zero_LimitInfo, zero_LimitInfo) \<and>
   clock_overflow (clear_region example_region) = 3"
  using clear_region_zeroes_flags_and_slots [of example_region]
  by (simp add: example_region_def)

theorem overflow_counter_not_cleared_counterexample:
  "clock_overflow (clear_region example_region) \<noteq> 0"
  by (simp add: clear_region_def example_region_def Let_def)

section \<open>Properties of the producers\<close>

lemma ulong_le_1: "(p::ulong) \<le> 1 \<Longrightarrow> p = 0 \<or> p = 1"
  by unat_arith

lemma toggle_slot: "(p::ulong) \<le> 1 \<Longrightarrow> (p XOR 1) AND 1 = 1 - p"
  using ulong_le_1 [of p] by auto

lemma toggle_le_1: "(p::ulong) \<le> 1 \<Longrightarrow> 1 - p \<le> 1"
  using ulong_le_1 [of p] by auto

lemma slot_read_packet:
  "(p::ulong) \<le> 1 \<Longrightarrow> slot_read (unat p) b = Some (ready_slot (p + 1) b)"
  using ulong_le_1 [of p] by (auto simp: slot_read_def ready_slot_def)

lemma slot_write_packet:
  "(p::ulong) \<le> 1 \<Longrightarrow>
   slot_write (unat p) v b = Some (if p = 0 then (v, snd b) else (fst b, v))"
  using ulong_le_1 [of p] by (auto simp: slot_write_def)

lemma index_step1:
  assumes "unat (i::ulong) < 120"
  shows "unat (i + 1) = unat i + 1"
proof -
  have "unat i + unat (1::ulong) < 2 ^ LENGTH(32)" using assms by simp
  then have "unat (i + 1) = unat i + unat (1::ulong)" by (simp only: unat_add_lem [THEN iffD1])
  then show ?thesis by simp
qed

lemma index_step2:
  assumes "unat (i::ulong) < 120"
  shows "i + 1 = 120 \<longleftrightarrow> unat i = 119"
proof -
  have "i + 1 = 120 \<longleftrightarrow> unat (i + 1) = unat (120::ulong)"
    by (simp only: word_unat_eq_iff)
  then show ?thesis using index_step1 [OF assms] by simp
qed


lemma unat_eq_119: "unat (w::ulong) = 119 \<longleftrightarrow> w = 119"
proof -
  have "w = 119 \<longleftrightarrow> unat w = unat (119::ulong)" by (simp only: word_unat_eq_iff)
  then show ?thesis by simp
qed

lemma encoder_pass_result:
  assumes "enc_ok (sh, l)"
  shows "encoder_pass x (sh, l) =
     Inr (let p = enc_packet l; i = unat (enc_index l);
              c = clock_overflow sh + (if sts_check x AND 1 \<noteq> 0 then 1 else 0);
              P = ready_slot (p + 1) (encoder_packets sh);
              P' = P\<lparr>enc_clock := (enc_clock P)[i := tmr_cnt x],
                     enc_clock_overflow := (enc_clock_overflow P)[i := c + (sts_fold x AND 1)],
                     enc_state := (enc_state P)[i := r31 x AND encoder_pru_mask]\<rparr>;
              b = (if p = 0 then (P', snd (encoder_packets sh)) else (fst (encoder_packets sh), P'))
          in if i = 119
             then (sh\<lparr>clock_overflow := c, encoder_packets := b, encoder_ready := p + 1\<rparr>,
                   l\<lparr>enc_index := 0, enc_published := enc_published l @ [p + 1],
                     enc_packet := 1 - p\<rparr>)
             else (sh\<lparr>clock_overflow := c, encoder_packets := b\<rparr>,
                   l\<lparr>enc_index := enc_index l + 1\<rparr>))"
proof -
  from assms have p: "enc_packet l \<le> 1" and i: "unat (enc_index l) < 120"
    and s0: "encoder_slot_sized (fst (encoder_packets sh))"
    and s1: "encoder_slot_sized (snd (encoder_packets sh))"
    by (simp_all add: enc_ok_def ENCODER_COUNTER_SIZE_def)
  have sz: "encoder_slot_sized (ready_slot (enc_packet l + 1) (encoder_packets sh))"
    using s0 s1 by (simp add: ready_slot_def)
  show ?thesis
    using i sz
    by (simp add: encoder_pass_def count_overflow_def store_sample_def advance_def Let_def
        slot_read_packet [OF p] slot_write_packet [OF p] toggle_slot [OF p] unat_eq_119
        encoder_slot_sized_def ENCODER_COUNTER_SIZE_def)
qed


lemma encoder_pass_ok:
  assumes "enc_ok (sh, l)"
  shows "\<exists>s'. encoder_pass x (sh, l) = Inr s' \<and> enc_ok s' \<and> on (fst s') = on sh"
proof -
  from assms have p: "enc_packet l \<le> 1" and i: "unat (enc_index l) < 120"
    and s0: "encoder_slot_sized (fst (encoder_packets sh))"
    and s1: "encoder_slot_sized (snd (encoder_packets sh))"
    by (simp_all add: enc_ok_def ENCODER_COUNTER_SIZE_def)
  have n: "enc_index l \<noteq> 119 \<Longrightarrow> unat (enc_index l + 1) < 120"
    using index_step1 [OF i] i unat_eq_119 [of "enc_index l"] by simp
  show ?thesis
    unfolding encoder_pass_result [OF assms]
    using p s0 s1 n toggle_le_1 [OF p]
    by (simp add: enc_ok_def Let_def ready_slot_def encoder_slot_sized_def unat_eq_119
        ENCODER_COUNTER_SIZE_def)
qed

lemma fill_cons:
  "i < length old \<Longrightarrow>
   take (Suc i) (old[i := v]) @ ys @ drop (Suc (i + k)) (old[i := v]) =
   take i old @ (v # ys) @ drop (Suc (i + k)) old"
  by (simp add: take_Suc_conv_app_nth)

lemma encoder_loop_fill:
  assumes "enc_ok (sh, l)" and "on sh = 0" and "unat (enc_index l) + length xs < 120"
  shows "\<exists>sh' l'. encoder_loop xs (sh, l) = Inr (sh', l') \<and> enc_ok (sh', l') \<and> on sh' = 0 \<and>
     enc_packet l' = enc_packet l \<and>
     unat (enc_index l') = unat (enc_index l) + length xs \<and>
     encoder_ready sh' = encoder_ready sh \<and> enc_published l' = enc_published l \<and>
     clock_overflow sh' = counted_overflow (clock_overflow sh) xs \<and>
     enc_header (filling (sh', l')) = enc_header (filling (sh, l)) \<and>
     enc_clock (filling (sh', l')) =
       take (unat (enc_index l)) (enc_clock (filling (sh, l))) @ map tmr_cnt xs @
       drop (unat (enc_index l) + length xs) (enc_clock (filling (sh, l))) \<and>
     enc_clock_overflow (filling (sh', l')) =
       take (unat (enc_index l)) (enc_clock_overflow (filling (sh, l))) @
       folded_overflow (clock_overflow sh) xs @
       drop (unat (enc_index l) + length xs) (enc_clock_overflow (filling (sh, l))) \<and>
     enc_state (filling (sh', l')) =
       take (unat (enc_index l)) (enc_state (filling (sh, l))) @
       map (\<lambda>x. r31 x AND encoder_pru_mask) xs @
       drop (unat (enc_index l) + length xs) (enc_state (filling (sh, l)))"
  using assms
proof (induction xs arbitrary: sh l)
  case Nil
  then show ?case by simp
next
  case (Cons x xs)
  from Cons.prems(1) have p: "enc_packet l \<le> 1" and i: "unat (enc_index l) < 120"
    and s0: "encoder_slot_sized (fst (encoder_packets sh))"
    and s1: "encoder_slot_sized (snd (encoder_packets sh))"
    by (simp_all add: enc_ok_def ENCODER_COUNTER_SIZE_def)
  have sz: "encoder_slot_sized (filling (sh, l))"
    using s0 s1 by (simp add: filling_def ready_slot_def)
  from Cons.prems(3) have n119: "enc_index l \<noteq> 119"
    using unat_eq_119 [of "enc_index l"] by auto
  define c where "c = clock_overflow sh + (if sts_check x AND 1 \<noteq> 0 then 1 else 0)"
  define P where "P = filling (sh, l)"
  define P' where "P' = P\<lparr>enc_clock := (enc_clock P)[unat (enc_index l) := tmr_cnt x],
                     enc_clock_overflow :=
                       (enc_clock_overflow P)[unat (enc_index l) := c + (sts_fold x AND 1)],
                     enc_state := (enc_state P)[unat (enc_index l) := r31 x AND encoder_pru_mask]\<rparr>"
  define sh1 where "sh1 = sh\<lparr>clock_overflow := c,
      encoder_packets := (if enc_packet l = 0 then (P', snd (encoder_packets sh))
                          else (fst (encoder_packets sh), P'))\<rparr>"
  define l1 where "l1 = l\<lparr>enc_index := enc_index l + 1\<rparr>"
  have pass: "encoder_pass x (sh, l) = Inr (sh1, l1)"
    unfolding encoder_pass_result [OF Cons.prems(1)]
    using n119 by (simp add: Let_def unat_eq_119 sh1_def l1_def P'_def P_def c_def filling_def)
  from encoder_pass_ok [OF Cons.prems(1), of x] pass
  have ok1: "enc_ok (sh1, l1)" by simp
  have on1: "on sh1 = 0" using Cons.prems(2) by (simp add: sh1_def)
  have i1: "unat (enc_index l1) = Suc (unat (enc_index l))"
    using index_step1 [OF i] by (simp add: l1_def)
  have len1: "unat (enc_index l1) + length xs < 120"
    using Cons.prems(3) i1 by simp
  have f1: "filling (sh1, l1) = P'"
    using ulong_le_1 [OF p] by (auto simp: filling_def sh1_def l1_def ready_slot_def)
  from Cons.IH [OF ok1 on1 len1] obtain sh' l' where
    run: "encoder_loop xs (sh1, l1) = Inr (sh', l')" and ok: "enc_ok (sh', l')" and
    on': "on sh' = 0" and pk: "enc_packet l' = enc_packet l1" and
    ix: "unat (enc_index l') = unat (enc_index l1) + length xs" and
    rd: "encoder_ready sh' = encoder_ready sh1" and pb: "enc_published l' = enc_published l1" and
    co: "clock_overflow sh' = counted_overflow (clock_overflow sh1) xs" and
    hd: "enc_header (filling (sh', l')) = enc_header (filling (sh1, l1))" and
    ck: "enc_clock (filling (sh', l')) =
       take (unat (enc_index l1)) (enc_clock (filling (sh1, l1))) @ map tmr_cnt xs @
       drop (unat (enc_index l1) + length xs) (enc_clock (filling (sh1, l1)))" and
    cv: "enc_clock_overflow (filling (sh', l')) =
       take (unat (enc_index l1)) (enc_clock_overflow (filling (sh1, l1))) @
       folded_overflow (clock_overflow sh1) xs @
       drop (unat (enc_index l1) + length xs) (enc_clock_overflow (filling (sh1, l1)))" and
    st: "enc_state (filling (sh', l')) =
       take (unat (enc_index l1)) (enc_state (filling (sh1, l1))) @
       map (\<lambda>x. r31 x AND encoder_pru_mask) xs @
       drop (unat (enc_index l1) + length xs) (enc_state (filling (sh1, l1)))"
    by blast
  have il: "unat (enc_index l) < length (enc_clock P)"
    "unat (enc_index l) < length (enc_clock_overflow P)"
    "unat (enc_index l) < length (enc_state P)"
    using sz i by (simp_all add: P_def encoder_slot_sized_def ENCODER_COUNTER_SIZE_def)
  have c1: "clock_overflow sh1 = c" by (simp add: sh1_def)
  have run0: "encoder_loop (x # xs) (sh, l) = Inr (sh', l')"
    using pass run Cons.prems(2) by simp
  have "enc_packet l' = enc_packet l" using pk by (simp add: l1_def)
  moreover have "unat (enc_index l') = unat (enc_index l) + length (x # xs)"
    using ix i1 by simp
  moreover have "encoder_ready sh' = encoder_ready sh" using rd by (simp add: sh1_def)
  moreover have "enc_published l' = enc_published l" using pb by (simp add: l1_def)
  moreover have "clock_overflow sh' = counted_overflow (clock_overflow sh) (x # xs)"
    using co c1 by (simp add: c_def)
  moreover have "enc_header (filling (sh', l')) = enc_header (filling (sh, l))"
    using hd f1 by (simp add: P'_def P_def)
  moreover have "enc_clock (filling (sh', l')) =
       take (unat (enc_index l)) (enc_clock (filling (sh, l))) @ map tmr_cnt (x # xs) @
       drop (unat (enc_index l) + length (x # xs)) (enc_clock (filling (sh, l)))"
    unfolding ck f1 i1 using fill_cons [OF il(1)] by (simp add: P'_def P_def)
  moreover have "enc_clock_overflow (filling (sh', l')) =
       take (unat (enc_index l)) (enc_clock_overflow (filling (sh, l))) @
       folded_overflow (clock_overflow sh) (x # xs) @
       drop (unat (enc_index l) + length (x # xs)) (enc_clock_overflow (filling (sh, l)))"
    unfolding cv f1 i1 c1 using fill_cons [OF il(2)] by (simp add: P'_def P_def c_def Let_def)
  moreover have "enc_state (filling (sh', l')) =
       take (unat (enc_index l)) (enc_state (filling (sh, l))) @
       map (\<lambda>x. r31 x AND encoder_pru_mask) (x # xs) @
       drop (unat (enc_index l) + length (x # xs)) (enc_state (filling (sh, l)))"
    unfolding st f1 i1 using fill_cons [OF il(3)] by (simp add: P'_def P_def)
  ultimately show ?case using run0 ok on' by blast
qed

lemma encoder_loop_halted: "on (fst s) \<noteq> 0 \<Longrightarrow> encoder_loop ys s = Inr s"
  by (cases ys) simp_all

lemma encoder_pass_on: "encoder_pass x s = Inr s' \<Longrightarrow> on (fst s') = on (fst s)"
  by (cases s)
     (auto simp: encoder_pass_def count_overflow_def store_sample_def advance_def Let_def
       then_do_def split: if_splits option.splits sum.splits)

lemma encoder_loop_append:
  "encoder_loop (xs @ ys) s = then_do (encoder_loop xs s) (encoder_loop ys)"
proof (induction xs arbitrary: s)
  case Nil
  show ?case by simp
next
  case (Cons x xs)
  show ?case
  proof (cases "on (fst s) = 0")
    case True
    then show ?thesis using Cons.IH by (cases "encoder_pass x s") simp_all
  next
    case False
    then show ?thesis by (simp add: encoder_loop_halted)
  qed
qed

lemma counted_overflow_snoc:
  "counted_overflow c (ys @ [y]) =
     (if sts_check y AND 1 \<noteq> 0 then counted_overflow c ys + 1 else counted_overflow c ys)"
  by (induction ys arbitrary: c) simp_all

lemma folded_overflow_snoc:
  "folded_overflow c (ys @ [y]) =
     folded_overflow c ys @
       [(if sts_check y AND 1 \<noteq> 0 then counted_overflow c ys + 1 else counted_overflow c ys)
          + (sts_fold y AND 1)]"
  by (induction ys arbitrary: c) (simp_all add: Let_def)

lemma length_folded_overflow [simp]: "length (folded_overflow c xs) = length xs"
  by (induction xs arbitrary: c) (simp_all add: Let_def)

lemma last_slot_update:
  "length old = Suc n \<Longrightarrow> length ys = n \<Longrightarrow> (take 0 old @ ys @ drop n old)[n := v] = ys @ [v]"
proof -
  assume a: "length old = Suc n" "length ys = n"
  then have "drop n old = [old ! n]" using Cons_nth_drop_Suc [of n old] by simp
  with a show ?thesis by (simp add: list_update_append)
qed


lemma encoder_buffer_completion:
  assumes "enc_ok (sh, l)" and "on sh = 0" and "enc_index l = 0" and "length xs = 120"
  shows "\<exists>sh' l'. encoder_loop xs (sh, l) = Inr (sh', l') \<and> enc_ok (sh', l') \<and> on sh' = 0 \<and>
      encoder_ready sh' = enc_packet l + 1 \<and> enc_packet l' = 1 - enc_packet l \<and>
      enc_index l' = 0 \<and>
      enc_published l' = enc_published l @ [enc_packet l + 1] \<and>
      clock_overflow sh' = counted_overflow (clock_overflow sh) xs \<and>
      ready_slot (encoder_ready sh') (encoder_packets sh') =
        \<lparr>enc_header = enc_header (filling (sh, l)),
         enc_clock = map tmr_cnt xs,
         enc_clock_overflow = folded_overflow (clock_overflow sh) xs,
         enc_state = map (\<lambda>x. r31 x AND encoder_pru_mask) xs\<rparr>"
proof -
  from assms(4) obtain ys y where xs: "xs = ys @ [y]" and ly: "length ys = 119"
    by (cases xs rule: rev_cases) auto
  from assms(1) have p: "enc_packet l \<le> 1"
    and s0: "encoder_slot_sized (fst (encoder_packets sh))"
    and s1: "encoder_slot_sized (snd (encoder_packets sh))"
    by (simp_all add: enc_ok_def)
  have sz: "encoder_slot_sized (filling (sh, l))"
    using s0 s1 by (simp add: filling_def ready_slot_def)
  have i0: "unat (enc_index l) + length ys < 120" using assms(3) ly by simp
  from encoder_loop_fill [OF assms(1) assms(2) i0] obtain sh1 l1 where
    run: "encoder_loop ys (sh, l) = Inr (sh1, l1)" and ok: "enc_ok (sh1, l1)" and
    on1: "on sh1 = 0" and pk: "enc_packet l1 = enc_packet l" and
    ix: "unat (enc_index l1) = unat (enc_index l) + length ys" and
    rd: "encoder_ready sh1 = encoder_ready sh" and pb: "enc_published l1 = enc_published l" and
    co: "clock_overflow sh1 = counted_overflow (clock_overflow sh) ys" and
    hd: "enc_header (filling (sh1, l1)) = enc_header (filling (sh, l))" and
    ck: "enc_clock (filling (sh1, l1)) =
       take (unat (enc_index l)) (enc_clock (filling (sh, l))) @ map tmr_cnt ys @
       drop (unat (enc_index l) + length ys) (enc_clock (filling (sh, l)))" and
    cv: "enc_clock_overflow (filling (sh1, l1)) =
       take (unat (enc_index l)) (enc_clock_overflow (filling (sh, l))) @
       folded_overflow (clock_overflow sh) ys @
       drop (unat (enc_index l) + length ys) (enc_clock_overflow (filling (sh, l)))" and
    st: "enc_state (filling (sh1, l1)) =
       take (unat (enc_index l)) (enc_state (filling (sh, l))) @
       map (\<lambda>x. r31 x AND encoder_pru_mask) ys @
       drop (unat (enc_index l) + length ys) (enc_state (filling (sh, l)))"
    by blast
  have i119: "unat (enc_index l1) = 119" using ix assms(3) ly by simp
  have p1: "enc_packet l1 \<le> 1" using p pk by simp
  define c where "c = clock_overflow sh1 + (if sts_check y AND 1 \<noteq> 0 then 1 else 0)"
  define P where "P = filling (sh1, l1)"
  define P' where "P' = P\<lparr>enc_clock := (enc_clock P)[119 := tmr_cnt y],
       enc_clock_overflow := (enc_clock_overflow P)[119 := c + (sts_fold y AND 1)],
       enc_state := (enc_state P)[119 := r31 y AND encoder_pru_mask]\<rparr>"
  define sh' where "sh' = sh1\<lparr>clock_overflow := c,
      encoder_packets := (if enc_packet l1 = 0 then (P', snd (encoder_packets sh1))
                          else (fst (encoder_packets sh1), P')),
      encoder_ready := enc_packet l1 + 1\<rparr>"
  define l' where "l' = l1\<lparr>enc_index := 0, enc_published := enc_published l1 @ [enc_packet l1 + 1],
      enc_packet := 1 - enc_packet l1\<rparr>"
  have pass: "encoder_pass y (sh1, l1) = Inr (sh', l')"
    unfolding encoder_pass_result [OF ok]
    using i119 by (simp add: Let_def sh'_def l'_def P'_def P_def c_def filling_def)
  have whole: "encoder_loop xs (sh, l) = Inr (sh', l')"
    unfolding xs encoder_loop_append using run on1 pass by simp
  from encoder_pass_ok [OF ok, of y] pass have ok': "enc_ok (sh', l')" by simp
  have on': "on sh' = 0" using on1 by (simp add: sh'_def)
  have slot: "ready_slot (encoder_ready sh') (encoder_packets sh') = P'"
    using ulong_le_1 [OF p1] by (auto simp: sh'_def ready_slot_def)
  have len: "length (enc_clock (filling (sh, l))) = Suc 119"
    "length (enc_clock_overflow (filling (sh, l))) = Suc 119"
    "length (enc_state (filling (sh, l))) = Suc 119"
    using sz by (simp_all add: encoder_slot_sized_def ENCODER_COUNTER_SIZE_def)
  have z: "unat (enc_index l) = 0" using assms(3) by simp
  have k: "enc_clock P' = map tmr_cnt xs"
    using last_slot_update [OF len(1), of "map tmr_cnt ys" "tmr_cnt y"] ly
    by (simp add: P'_def P_def ck z xs)
  have v: "enc_clock_overflow P' = folded_overflow (clock_overflow sh) xs"
    using last_slot_update [OF len(2), of "folded_overflow (clock_overflow sh) ys"
        "c + (sts_fold y AND 1)"] ly
    by (simp add: P'_def P_def cv z xs folded_overflow_snoc c_def co)
  have t: "enc_state P' = map (\<lambda>x. r31 x AND encoder_pru_mask) xs"
    using last_slot_update [OF len(3), of "map (\<lambda>x. r31 x AND encoder_pru_mask) ys"
        "r31 y AND encoder_pru_mask"] ly
    by (simp add: P'_def P_def st z xs)
  have h: "enc_header P' = enc_header (filling (sh, l))"
    using hd by (simp add: P'_def P_def)
  have rec: "P' = \<lparr>enc_header = enc_header (filling (sh, l)),
         enc_clock = map tmr_cnt xs,
         enc_clock_overflow = folded_overflow (clock_overflow sh) xs,
         enc_state = map (\<lambda>x. r31 x AND encoder_pru_mask) xs\<rparr>"
    using k v t h by (cases P') simp
  have "encoder_ready sh' = enc_packet l + 1" by (simp add: sh'_def pk)
  moreover have "enc_packet l' = 1 - enc_packet l" by (simp add: l'_def pk)
  moreover have "enc_index l' = 0" by (simp add: l'_def)
  moreover have "enc_published l' = enc_published l @ [enc_packet l + 1]"
    by (simp add: l'_def pk pb)
  moreover have "clock_overflow sh' = counted_overflow (clock_overflow sh) xs"
    by (simp add: sh'_def c_def co xs counted_overflow_snoc)
  ultimately show ?thesis using whole ok' on' slot rec by auto
qed





lemma limit_pass_idle: "\<not> pressed x \<Longrightarrow> limit_pass x s = Inr s"
  by (simp add: limit_pass_def pressed_def)

lemma store_event_result:
  assumes "lim_packet l \<le> 1"
  shows "store_event x (sh, l) =
     Inr (let P = ready_slot (lim_packet l + 1) (limit_packets sh);
              P' = P\<lparr>lim_clock := lim_tmr_cnt x,
                     lim_clock_overflow := clock_overflow sh + (lim_sts x AND 1),
                     lim_state := NOT (r31_state x) AND limit_pru_mask\<rparr>
          in (sh\<lparr>limit_packets := (if lim_packet l = 0 then (P', snd (limit_packets sh))
                                   else (fst (limit_packets sh), P'))\<rparr>, l))"
  by (simp add: store_event_def Let_def slot_read_packet [OF assms] slot_write_packet [OF assms])

lemma limit_pass_pressed:
  assumes "lim_packet l \<le> 1" and "pressed x"
  shows "limit_pass x (sh, l) =
     Inr (let P = ready_slot (lim_packet l + 1) (limit_packets sh);
              P' = P\<lparr>lim_clock := lim_tmr_cnt x,
                     lim_clock_overflow := clock_overflow sh + (lim_sts x AND 1),
                     lim_state := NOT (r31_state x) AND limit_pru_mask\<rparr>
          in (sh\<lparr>limit_packets := (if lim_packet l = 0 then (P', snd (limit_packets sh))
                                   else (fst (limit_packets sh), P')),
                  limit_ready := lim_packet l + 1\<rparr>,
              l\<lparr>lim_published := lim_published l @ [lim_packet l + 1],
                lim_packet := 1 - lim_packet l\<rparr>))"
  using assms(2)
  by (simp add: limit_pass_def pressed_def store_event_result [OF assms(1)] publish_event_def
      Let_def toggle_slot [OF assms(1)])

lemma limit_pass_published_slot:
  assumes "lim_packet l \<le> 1" and "pressed x"
  shows "\<exists>sh' l'. limit_pass x (sh, l) = Inr (sh', l') \<and>
      limit_ready sh' = lim_packet l + 1 \<and> lim_packet l' = 1 - lim_packet l \<and>
      lim_published l' = lim_published l @ [lim_packet l + 1] \<and>
      clock_overflow sh' = clock_overflow sh \<and> on sh' = on sh \<and>
      ready_slot (limit_ready sh') (limit_packets sh') =
        \<lparr>lim_header = lim_header (ready_slot (lim_packet l + 1) (limit_packets sh)),
         lim_clock = lim_tmr_cnt x,
         lim_clock_overflow = clock_overflow sh + (lim_sts x AND 1),
         lim_state = NOT (r31_state x) AND limit_pru_mask\<rparr>"
  unfolding limit_pass_pressed [OF assms]
  using ulong_le_1 [OF assms(1)]
  by (cases "ready_slot (lim_packet l + 1) (limit_packets sh)")
     (auto simp: Let_def ready_slot_def)


lemma folded_overflow_nth:
  "n < length xs \<Longrightarrow>
   folded_overflow c xs ! n = counted_overflow c (take (Suc n) xs) + (sts_fold (xs ! n) AND 1)"
proof (induction xs arbitrary: c n)
  case Nil
  then show ?case by simp
next
  case (Cons x xs)
  show ?case
  proof (cases n)
    case 0
    then show ?thesis by (simp add: Let_def)
  next
    case (Suc m)
    with Cons.prems have "m < length xs" by simp
    from Cons.IH [OF this] Suc show ?thesis by (simp add: Let_def)
  qed
qed

lemma counted_overflow_take_Suc:
  "n < length xs \<Longrightarrow>
   counted_overflow c (take (Suc n) xs) =
     counted_overflow c (take n xs) + (if sts_check (xs ! n) AND 1 \<noteq> 0 then 1 else 0)"
  by (simp add: take_Suc_conv_app_nth counted_overflow_snoc)



lemma booted_region_facts:
  "on (booted_region sh) = 0" "clock_overflow (booted_region sh) = 0"
  "encoder_ready (booted_region sh) = 0" "limit_ready (booted_region sh) = 0"
  "error_ready (booted_region sh) = 0"
  "encoder_packets (booted_region sh) =
     (zero_EncoderInfo\<lparr>enc_header := ENCODER_HEADER\<rparr>, zero_EncoderInfo\<lparr>enc_header := ENCODER_HEADER\<rparr>)"
  "limit_packets (booted_region sh) =
     (zero_LimitInfo\<lparr>lim_header := LIMIT_HEADER\<rparr>, zero_LimitInfo\<lparr>lim_header := LIMIT_HEADER\<rparr>)"
  by (simp_all add: booted_region_def limit_startup_def encoder_startup_def clear_region_def Let_def)

lemma booted_enc_ok: "enc_ok (booted_region sh, enc_local_init)"
  by (simp add: enc_ok_def booted_region_facts enc_local_init_def encoder_slot_sized_def
      zero_EncoderInfo_def ENCODER_COUNTER_SIZE_def)

lemma example_press_pressed: "pressed example_press"
  by (simp add: pressed_def example_press_def limit_pru_mask_def)

subsection \<open>C4: who counts the wraps and what a sample records\<close>

text \<open>
  Claim C4, as amended. Only the encoder producer writes the overflow counter: it adds 1
  in every pass that finds the wrap flag set. The limit producer never writes the counter.
  Both fold the pending wrap into the sample: the overflow field recorded is the shared
  counter plus the flag bit read with the sample. So inside one encoder buffer, when the
  flag is found set at the start of tick N+1, the field of tick N+1 is the counter as it
  stood after tick N, plus 1, plus the flag bit read at tick N+1. The claim as stated has
  each producer increment the counter when it observes a wrap: the limit producer,
  storing an event while the flag is set, records 4 in the sample and leaves the counter
  at 3.
\<close>

theorem overflow_counted_by_encoder_folded_by_both:
  "(\<forall>sh l x. enc_ok (sh, l) \<longrightarrow>
      (\<exists>sh' l'. encoder_pass x (sh, l) = Inr (sh', l') \<and>
         clock_overflow sh' = clock_overflow sh + (if sts_check x AND 1 \<noteq> 0 then 1 else 0) \<and>
         enc_clock_overflow (ready_slot (enc_packet l + 1) (encoder_packets sh')) ! unat (enc_index l)
           = clock_overflow sh' + (sts_fold x AND 1))) \<and>
   (\<forall>sh (l::lim_local) x. lim_packet l \<le> 1 \<longrightarrow>
      (\<exists>sh' l'. limit_pass x (sh, l) = Inr (sh', l') \<and>
         clock_overflow sh' = clock_overflow sh \<and>
         (pressed x \<longrightarrow>
            lim_clock_overflow (ready_slot (limit_ready sh') (limit_packets sh'))
              = clock_overflow sh + (lim_sts x AND 1)))) \<and>
   (\<forall>sh l xs n. enc_ok (sh, l) \<longrightarrow> on sh = 0 \<longrightarrow> enc_index l = 0 \<longrightarrow> length xs = 120 \<longrightarrow>
      Suc n < 120 \<longrightarrow>
      (\<exists>shN lN sh' l'.
         encoder_loop (take (Suc n) xs) (sh, l) = Inr (shN, lN) \<and>
         encoder_loop xs (sh, l) = Inr (sh', l') \<and>
         enc_clock_overflow (ready_slot (encoder_ready sh') (encoder_packets sh')) ! Suc n =
           clock_overflow shN + (if sts_check (xs ! Suc n) AND 1 \<noteq> 0 then 1 else 0)
             + (sts_fold (xs ! Suc n) AND 1)))"
proof -
  have enc: "\<forall>sh l x. enc_ok (sh, l) \<longrightarrow>
      (\<exists>sh' l'. encoder_pass x (sh, l) = Inr (sh', l') \<and>
         clock_overflow sh' = clock_overflow sh + (if sts_check x AND 1 \<noteq> 0 then 1 else 0) \<and>
         enc_clock_overflow (ready_slot (enc_packet l + 1) (encoder_packets sh')) ! unat (enc_index l)
           = clock_overflow sh' + (sts_fold x AND 1))"
  proof (intro allI impI)
    fix sh and l :: enc_local and x :: enc_hw
    assume ok: "enc_ok (sh, l)"
    then have p: "enc_packet l \<le> 1" and i: "unat (enc_index l) < 120"
      and s0: "encoder_slot_sized (fst (encoder_packets sh))"
      and s1: "encoder_slot_sized (snd (encoder_packets sh))"
      by (simp_all add: enc_ok_def ENCODER_COUNTER_SIZE_def)
    have len: "unat (enc_index l) <
        length (enc_clock_overflow (ready_slot (enc_packet l + 1) (encoder_packets sh)))"
      using s0 s1 i by (simp add: ready_slot_def encoder_slot_sized_def ENCODER_COUNTER_SIZE_def)
    show "\<exists>sh' l'. encoder_pass x (sh, l) = Inr (sh', l') \<and>
         clock_overflow sh' = clock_overflow sh + (if sts_check x AND 1 \<noteq> 0 then 1 else 0) \<and>
         enc_clock_overflow (ready_slot (enc_packet l + 1) (encoder_packets sh')) ! unat (enc_index l)
           = clock_overflow sh' + (sts_fold x AND 1)"
      unfolding encoder_pass_result [OF ok]
      using ulong_le_1 [OF p] len by (auto simp: Let_def ready_slot_def)
  qed
  have lim: "\<forall>sh (l::lim_local) x. lim_packet l \<le> 1 \<longrightarrow>
      (\<exists>sh' l'. limit_pass x (sh, l) = Inr (sh', l') \<and>
         clock_overflow sh' = clock_overflow sh \<and>
         (pressed x \<longrightarrow>
            lim_clock_overflow (ready_slot (limit_ready sh') (limit_packets sh'))
              = clock_overflow sh + (lim_sts x AND 1)))"
  proof (intro allI impI)
    fix sh and l :: lim_local and x
    assume p: "lim_packet l \<le> 1"
    show "\<exists>sh' l'. limit_pass x (sh, l) = Inr (sh', l') \<and>
         clock_overflow sh' = clock_overflow sh \<and>
         (pressed x \<longrightarrow>
            lim_clock_overflow (ready_slot (limit_ready sh') (limit_packets sh'))
              = clock_overflow sh + (lim_sts x AND 1))"
    proof (cases "pressed x")
      case False
      then show ?thesis by (simp add: limit_pass_idle)
    next
      case True
      from limit_pass_published_slot [OF p True, of sh] show ?thesis by auto
    qed
  qed
  have buf: "\<forall>sh l xs n. enc_ok (sh, l) \<longrightarrow> on sh = 0 \<longrightarrow> enc_index l = 0 \<longrightarrow> length xs = 120 \<longrightarrow>
      Suc n < 120 \<longrightarrow>
      (\<exists>shN lN sh' l'.
         encoder_loop (take (Suc n) xs) (sh, l) = Inr (shN, lN) \<and>
         encoder_loop xs (sh, l) = Inr (sh', l') \<and>
         enc_clock_overflow (ready_slot (encoder_ready sh') (encoder_packets sh')) ! Suc n =
           clock_overflow shN + (if sts_check (xs ! Suc n) AND 1 \<noteq> 0 then 1 else 0)
             + (sts_fold (xs ! Suc n) AND 1))"
  proof (intro allI impI)
    fix sh and l :: enc_local and xs :: "enc_hw list" and n :: nat
    assume ok: "enc_ok (sh, l)" and o: "on sh = 0" and z: "enc_index l = 0"
      and len: "length xs = 120" and n: "Suc n < 120"
    have pre: "unat (enc_index l) + length (take (Suc n) xs) < 120" using z len n by simp
    from encoder_loop_fill [OF ok o pre] obtain shN lN where
      rN: "encoder_loop (take (Suc n) xs) (sh, l) = Inr (shN, lN)" and
      cN: "clock_overflow shN = counted_overflow (clock_overflow sh) (take (Suc n) xs)"
      by blast
    from encoder_buffer_completion [OF ok o z len] obtain sh' l' where
      r: "encoder_loop xs (sh, l) = Inr (sh', l')" and
      slot: "ready_slot (encoder_ready sh') (encoder_packets sh') =
        \<lparr>enc_header = enc_header (filling (sh, l)),
         enc_clock = map tmr_cnt xs,
         enc_clock_overflow = folded_overflow (clock_overflow sh) xs,
         enc_state = map (\<lambda>x. r31 x AND encoder_pru_mask) xs\<rparr>"
      by blast
    have m: "Suc n < length xs" using len n by simp
    have "enc_clock_overflow (ready_slot (encoder_ready sh') (encoder_packets sh')) ! Suc n =
           clock_overflow shN + (if sts_check (xs ! Suc n) AND 1 \<noteq> 0 then 1 else 0)
             + (sts_fold (xs ! Suc n) AND 1)"
      unfolding slot cN
      using folded_overflow_nth [OF m, of "clock_overflow sh"] counted_overflow_take_Suc [OF m, of "clock_overflow sh"]
      by simp
    with rN r show "\<exists>shN lN sh' l'.
         encoder_loop (take (Suc n) xs) (sh, l) = Inr (shN, lN) \<and>
         encoder_loop xs (sh, l) = Inr (sh', l') \<and>
         enc_clock_overflow (ready_slot (encoder_ready sh') (encoder_packets sh')) ! Suc n =
           clock_overflow shN + (if sts_check (xs ! Suc n) AND 1 \<noteq> 0 then 1 else 0)
             + (sts_fold (xs ! Suc n) AND 1)"
      by blast
  qed
  from enc lim buf show ?thesis by blast
qed

theorem limit_producer_leaves_counter_counterexample:
  "pressed example_press \<and> lim_sts example_press AND 1 = 1 \<and>
   clock_overflow example_region = 3 \<and>
   (\<exists>sh' l'. limit_pass example_press (example_region, lim_local_init) = Inr (sh', l') \<and>
      clock_overflow sh' = 3 \<and>
      lim_clock_overflow (fst (limit_packets sh')) = 4)"
proof -
  have p: "lim_packet lim_local_init \<le> 1" by (simp add: lim_local_init_def)
  have "\<exists>sh' l'. limit_pass example_press (example_region, lim_local_init) = Inr (sh', l') \<and>
      clock_overflow sh' = 3 \<and>
      lim_clock_overflow (fst (limit_packets sh')) = 4"
    unfolding limit_pass_pressed [OF p example_press_pressed]
    by (simp add: Let_def lim_local_init_def example_region_def example_press_def)
  then show ?thesis
    using example_press_pressed by (simp add: example_press_def example_region_def)
qed


lemma lim_local_init_ok: "lim_packet lim_local_init \<le> 1"
  by (simp add: lim_local_init_def)

theorem overflow_counted_by_encoder_folded_by_both_witness:
  "enc_ok (booted_region example_region, enc_local_init) \<and>
   (\<exists>sh' l'. encoder_pass example_wrap (booted_region example_region, enc_local_init) = Inr (sh', l') \<and>
      clock_overflow sh' = 1 \<and>
      enc_clock_overflow (fst (encoder_packets sh')) ! 0 = 1) \<and>
   (\<exists>sh' l'. limit_pass example_press (example_region, lim_local_init) = Inr (sh', l') \<and>
      clock_overflow sh' = 3 \<and>
      lim_clock_overflow (fst (limit_packets sh')) = 4) \<and>
   (\<exists>shN lN sh' l'.
      encoder_loop [example_tick] (booted_region example_region, enc_local_init) = Inr (shN, lN) \<and>
      encoder_loop (example_tick # example_wrap # replicate 118 example_tick)
        (booted_region example_region, enc_local_init) = Inr (sh', l') \<and>
      enc_clock_overflow (fst (encoder_packets sh')) ! 1 = clock_overflow shN + 1)"
proof -
  let ?s = "(booted_region example_region, enc_local_init)"
  let ?xs = "example_tick # example_wrap # replicate 118 example_tick"
  have w: "sts_check example_wrap AND 1 \<noteq> 0" "sts_fold example_wrap AND 1 = 0"
    by (simp_all add: example_wrap_def)
  have i: "enc_packet enc_local_init = 0" "enc_index enc_local_init = 0"
    by (simp_all add: enc_local_init_def)
  from overflow_counted_by_encoder_folded_by_both
    [THEN conjunct1, rule_format, OF booted_enc_ok [of example_region], of example_wrap]
  have a: "\<exists>sh' l'. encoder_pass example_wrap ?s = Inr (sh', l') \<and>
      clock_overflow sh' = 1 \<and>
      enc_clock_overflow (fst (encoder_packets sh')) ! 0 = 1"
    using w by (auto simp: i booted_region_facts ready_slot_def)
  from overflow_counted_by_encoder_folded_by_both
    [THEN conjunct2, THEN conjunct1, rule_format, OF lim_local_init_ok,
      of example_press example_region]
  have b: "\<exists>sh' l'. limit_pass example_press (example_region, lim_local_init) = Inr (sh', l') \<and>
      clock_overflow sh' = 3 \<and>
      lim_clock_overflow (fst (limit_packets sh')) = 4"
    using example_press_pressed
    by (auto simp: lim_local_init_def example_region_def example_press_def ready_slot_def
        limit_pass_pressed Let_def)
  have len: "length ?xs = 120" by simp
  from overflow_counted_by_encoder_folded_by_both
    [THEN conjunct2, THEN conjunct2, rule_format,
      OF booted_enc_ok [of example_region] _ i(2) len, of 0]
  obtain shN lN sh' l' where
    rN: "encoder_loop (take (Suc 0) ?xs) ?s = Inr (shN, lN)" and
    r: "encoder_loop ?xs ?s = Inr (sh', l')" and
    f: "enc_clock_overflow (ready_slot (encoder_ready sh') (encoder_packets sh')) ! Suc 0 =
           clock_overflow shN + (if sts_check (?xs ! Suc 0) AND 1 \<noteq> 0 then 1 else 0)
             + (sts_fold (?xs ! Suc 0) AND 1)"
    by (auto simp: booted_region_facts)
  from encoder_buffer_completion [OF booted_enc_ok _ i(2) len, of example_region] r
  have "encoder_ready sh' = 1" by (auto simp: booted_region_facts i)
  with f w have "enc_clock_overflow (fst (encoder_packets sh')) ! 1 = clock_overflow shN + 1"
    by (simp add: ready_slot_def)
  with rN r have c: "\<exists>shN lN sh' l'.
      encoder_loop [example_tick] ?s = Inr (shN, lN) \<and>
      encoder_loop ?xs ?s = Inr (sh', l') \<and>
      enc_clock_overflow (fst (encoder_packets sh')) ! 1 = clock_overflow shN + 1"
    by auto
  from a b c booted_enc_ok show ?thesis by blast
qed






subsection \<open>C5: a slot is filled before it is published, and slots alternate\<close>



section \<open>Properties of the three programs together\<close>
















subsection \<open>C1: a ready buffer is copied, counted, acknowledged, and not drained again\<close>




end
